theory Spec2Isabelle
  imports Complex_Main "HOL-Library.Word"
begin

section \<open>The texture atlas packer of \<^verbatim>\<open>textureatlas.py\<close>\<close>

text \<open>
  Python objects that are mutated through several references (the frames, which are held
  by their texture, by the region they are packed into and by the driver's list at once)
  live in an explicit store: a list indexed by address. Everything else is a value.
\<close>

type_synonym addr = nat

datatype error =
  AtlasTooSmall | OpenFailed | IndexError | KeyError | ZeroDivisionError | OverflowError

subsection \<open>Packable\<close>

text \<open>
  \<^verbatim>\<open>Packable.__init__\<close> sets \<^verbatim>\<open>_x = 0\<close>, \<^verbatim>\<open>_y = 0\<close> and stores the two dimensions;
  only \<^verbatim>\<open>x\<close> and \<^verbatim>\<open>y\<close> have setters.
\<close>

record Packable =
  p_x :: int
  p_y :: int
  p_width :: int
  p_height :: int

definition Packable_init :: "int \<Rightarrow> int \<Rightarrow> Packable" where
  "Packable_init w h = \<lparr>p_x = 0, p_y = 0, p_width = w, p_height = h\<rparr>"

definition perimeter :: "'a Packable_scheme \<Rightarrow> int" where
  "perimeter p = 2 * p_width p + 2 * p_height p"

type_synonym 'a store = "'a Packable_scheme list"

subsection \<open>PackRegion\<close>

text \<open>
  \<^verbatim>\<open>_packable\<close>, \<^verbatim>\<open>_sub1\<close> and \<^verbatim>\<open>_sub2\<close> start as \<^verbatim>\<open>None\<close> and are assigned together,
  in \<^verbatim>\<open>pack\<close> and nowhere else: a region is either empty (all three \<^verbatim>\<open>None\<close>) or occupied
  (all three set). The packable is held by reference.
\<close>

datatype PackRegion =
    Empty (r_x: int) (r_y: int) (r_width: int) (r_height: int)
  | Occupied (r_x: int) (r_y: int) (r_width: int) (r_height: int)
      (r_packable: addr) (r_sub1: PackRegion) (r_sub2: PackRegion)

definition PackRegion_init :: "int \<Rightarrow> int \<Rightarrow> int \<Rightarrow> int \<Rightarrow> PackRegion" where
  "PackRegion_init rx ry rw rh = Empty rx ry rw rh"

fun get_all_packables :: "PackRegion \<Rightarrow> addr list" where
  "get_all_packables (Empty rx ry rw rh) = []"
| "get_all_packables (Occupied rx ry rw rh p s1 s2) =
     [p] @ get_all_packables s1 @ get_all_packables s2"

text \<open>
  \<^verbatim>\<open>PackRegion.pack\<close>: the result, the region afterwards and the store afterwards.
  \<^verbatim>\<open>a or b\<close> calls \<^verbatim>\<open>sub2.pack\<close> only when \<^verbatim>\<open>sub1.pack\<close> returned \<^verbatim>\<open>False\<close>.
\<close>

fun pack :: "PackRegion \<Rightarrow> addr \<Rightarrow> 'a store \<Rightarrow> bool \<times> PackRegion \<times> 'a store" where
  "pack (Empty rx ry rw rh) a s =
     (if p_width (s ! a) > rw \<or> p_height (s ! a) > rh then (False, Empty rx ry rw rh, s)
      else
        let s' = s[a := (s ! a)\<lparr>p_x := rx, p_y := ry\<rparr>];
            sub1 = PackRegion_init rx (ry + p_height (s' ! a)) (p_width (s' ! a))
                     (rh - p_height (s' ! a));
            sub2 = PackRegion_init (rx + p_width (s' ! a)) ry (rw - p_width (s' ! a)) rh
        in (True, Occupied rx ry rw rh a sub1 sub2, s'))"
| "pack (Occupied rx ry rw rh p s1 s2) a s =
     (case pack s1 a s of
        (True, s1', s') \<Rightarrow> (True, Occupied rx ry rw rh p s1' s2, s')
      | (False, s1', s') \<Rightarrow>
          (case pack s2 a s' of
             (ok, s2', s'') \<Rightarrow> (ok, Occupied rx ry rw rh p s1' s2', s'')))"

subsection \<open>Frame, Texture\<close>

text \<open>
  A decoded image: its size and its pixels as they are pasted into an RGBA canvas
  (column, then row). \<^verbatim>\<open>Image.open\<close> is the decoder, a parameter of the model:
  \<^verbatim>\<open>None\<close> when it raises.
\<close>

type_synonym pixel = "8 word \<times> 8 word \<times> 8 word \<times> 8 word"

record Image =
  i_width :: nat
  i_height :: nat
  i_pixel :: "nat \<Rightarrow> nat \<Rightarrow> pixel"

type_synonym decoder = "string \<Rightarrow> Image option"

record Frame = Packable +
  f_filename :: string
  f_image :: Image

definition Frame_init :: "decoder \<Rightarrow> string \<Rightarrow> error + Frame" where
  "Frame_init decode fname =
     (case decode fname of
        None \<Rightarrow> Inl OpenFailed
      | Some img \<Rightarrow>
          Inr (Packable.extend (Packable_init (int (i_width img)) (int (i_height img)))
                 (Frame.fields fname img)))"

record Texture =
  t_name :: string
  t_frames :: "addr list"

definition Texture_init :: "string \<Rightarrow> addr list \<Rightarrow> Texture" where
  "Texture_init nm fs = \<lparr>t_name = nm, t_frames = fs\<rparr>"

subsection \<open>TextureAtlas\<close>

text \<open>
  \<^verbatim>\<open>TextureAtlas\<close> extends \<^verbatim>\<open>PackRegion\<close> by the list of textures; here the region is a
  field. \<^verbatim>\<open>self.width\<close> and \<^verbatim>\<open>self.height\<close> are those of the root region.
\<close>

record TextureAtlas =
  a_region :: PackRegion
  a_textures :: "Texture list"

definition TextureAtlas_init :: "int \<Rightarrow> int \<Rightarrow> TextureAtlas" where
  "TextureAtlas_init w h = \<lparr>a_region = PackRegion_init 0 0 w h, a_textures = []\<rparr>"

text \<open>
  The loop of \<^verbatim>\<open>TextureAtlas.pack\<close> over \<^verbatim>\<open>texture.frames\<close>: the first frame that
  \<^verbatim>\<open>PackRegion.pack\<close> refuses raises \<^verbatim>\<open>AtlasTooSmall\<close>, and the frames after it are not
  tried. A raise is the first component; the state reached is returned with it.
\<close>

fun pack_frames :: "PackRegion \<Rightarrow> addr list \<Rightarrow> 'a store \<Rightarrow> error option \<times> PackRegion \<times> 'a store" where
  "pack_frames r [] s = (None, r, s)"
| "pack_frames r (f # fs) s =
     (case pack r f s of
        (ok, r', s') \<Rightarrow>
          if \<not> ok then (Some AtlasTooSmall, r', s') else pack_frames r' fs s')"

definition TextureAtlas_pack ::
  "TextureAtlas \<Rightarrow> Texture \<Rightarrow> 'a store \<Rightarrow> error option \<times> TextureAtlas \<times> 'a store" where
  "TextureAtlas_pack atlas texture s =
     (let atlas1 = atlas\<lparr>a_textures := a_textures atlas @ [texture]\<rparr> in
      case pack_frames (a_region atlas1) (t_frames texture) s of
        (e, r', s') \<Rightarrow> (e, atlas1\<lparr>a_region := r'\<rparr>, s'))"

text \<open>
  \<^verbatim>\<open>to_dict\<close>. Python's \<^verbatim>\<open>/\<close> on two ints is the correctly rounded double of the exact
  quotient; the model keeps the exact quotient. A dict comprehension keeps, for a key
  that occurs twice, the value computed last.
\<close>

type_synonym uv = "rat \<times> rat \<times> rat \<times> rat"

definition truediv :: "int \<Rightarrow> int \<Rightarrow> rat" where
  "truediv a b = rat_of_int a / rat_of_int b"

text \<open>
  One entry of the comprehension. \<^verbatim>\<open>tex.frames[0]\<close> raises \<^verbatim>\<open>IndexError\<close> on a texture
  without frames, a division by a zero width or height raises \<^verbatim>\<open>ZeroDivisionError\<close>.
\<close>

definition bounds_entry :: "TextureAtlas \<Rightarrow> 'a store \<Rightarrow> Texture \<Rightarrow> error + uv" where
  "bounds_entry atlas s tex =
     (case t_frames tex of
        [] \<Rightarrow> Inl IndexError
      | f0 # rest \<Rightarrow>
          if r_width (a_region atlas) = 0 \<or> r_height (a_region atlas) = 0
          then Inl ZeroDivisionError
          else Inr (truediv (p_x (s ! f0)) (r_width (a_region atlas)),
                    truediv (p_y (s ! f0)) (r_height (a_region atlas)),
                    truediv (p_x (s ! f0) + p_width (s ! f0)) (r_width (a_region atlas)),
                    truediv (p_y (s ! f0) + min (p_height (s ! f0)) (p_width (s ! f0)))
                      (r_height (a_region atlas))))"

fun to_dict_loop ::
  "TextureAtlas \<Rightarrow> 'a store \<Rightarrow> Texture list \<Rightarrow> (string \<rightharpoonup> uv) \<Rightarrow> error + (string \<rightharpoonup> uv)" where
  "to_dict_loop atlas s [] d = Inr d"
| "to_dict_loop atlas s (tex # texs) d =
     (case bounds_entry atlas s tex of
        Inl e \<Rightarrow> Inl e
      | Inr b \<Rightarrow> to_dict_loop atlas s texs (d(t_name tex \<mapsto> b)))"

definition to_dict :: "TextureAtlas \<Rightarrow> 'a store \<Rightarrow> error + (string \<rightharpoonup> uv)" where
  "to_dict atlas s = to_dict_loop atlas s (a_textures atlas) Map.empty"

text \<open>
  \<^verbatim>\<open>generate\<close>: \<^verbatim>\<open>Image.new\<close> gives a canvas of zero bytes, \<^verbatim>\<open>paste\<close> without a mask
  overwrites the pixels of the canvas that the pasted image covers.
\<close>

definition Image_new :: "int \<Rightarrow> int \<Rightarrow> Image" where
  "Image_new w h = \<lparr>i_width = nat w, i_height = nat h, i_pixel = (\<lambda>c r. (0, 0, 0, 0))\<rparr>"

definition paste :: "Image \<Rightarrow> Image \<Rightarrow> int \<times> int \<Rightarrow> Image" where
  "paste canvas img pos =
     canvas\<lparr>i_pixel := (\<lambda>c r.
        if fst pos \<le> int c \<and> int c < fst pos + int (i_width img) \<and>
           snd pos \<le> int r \<and> int r < snd pos + int (i_height img)
        then i_pixel img (nat (int c - fst pos)) (nat (int r - snd pos))
        else i_pixel canvas c r)\<rparr>"

definition draw :: "Frame \<Rightarrow> Image \<Rightarrow> Image" where
  "draw f canvas = paste canvas (f_image f) (p_x f, p_y f)"

definition generate :: "TextureAtlas \<Rightarrow> Frame list \<Rightarrow> Image" where
  "generate atlas s =
     fold (\<lambda>t out. fold (\<lambda>f out. draw (s ! f) out) (t_frames t) out) (a_textures atlas)
       (Image_new (r_width (a_region atlas)) (r_height (a_region atlas)))"

text \<open>\<^verbatim>\<open>numpy.array(img, numpy.uint8).ravel()\<close>: rows, then columns, then the four channels.\<close>

definition ravel :: "Image \<Rightarrow> 8 word list" where
  "ravel img =
     concat (map (\<lambda>r. concat (map (\<lambda>c. case i_pixel img c r of (cr, cg, cb, ca) \<Rightarrow> [cr, cg, cb, ca])
                                 [0..<i_width img]))
               [0..<i_height img])"

subsection \<open>create_atlas\<close>

text \<open>
  The first loop: one \<^verbatim>\<open>Frame\<close> and one \<^verbatim>\<open>Texture\<close> per value of the dict, in the order
  of the dict, the texture named by the path. A new frame gets the next free address.
  The dict is a list of items in insertion order.
\<close>

fun load_textures ::
  "decoder \<Rightarrow> string list \<Rightarrow> Frame list \<Rightarrow> Texture list \<Rightarrow> error + (Frame list \<times> Texture list)" where
  "load_textures decode [] s textures = Inr (s, textures)"
| "load_textures decode (texture # rest) s textures =
     (case Frame_init decode texture of
        Inl e \<Rightarrow> Inl e
      | Inr f \<Rightarrow>
          load_textures decode rest (s @ [f]) (textures @ [Texture_init texture [length s]]))"

text \<open>
  \<^verbatim>\<open>sorted(textures, key=lambda i: i.frames[0].perimeter, reverse=True)\<close>: a stable sort,
  and \<^verbatim>\<open>reverse=True\<close> keeps the stability. \<^const>\<open>sort_key\<close> is the stable insertion sort.
\<close>

definition sort_textures :: "'a store \<Rightarrow> Texture list \<Rightarrow> error + Texture list" where
  "sort_textures s textures =
     (if [] \<in> set (map t_frames textures) then Inl IndexError
      else Inr (sort_key (\<lambda>i. - perimeter (s ! hd (t_frames i))) textures))"

text \<open>The loop over all frames that computes \<^verbatim>\<open>height\<close>, \<^verbatim>\<open>width\<close> and \<^verbatim>\<open>pixels\<close>.\<close>

definition measure_frames :: "'a store \<Rightarrow> Texture list \<Rightarrow> int \<times> int \<times> int" where
  "measure_frames s textures =
     fold (\<lambda>t acc. fold (\<lambda>f (height, width, pixels).
                           (max (p_height (s ! f)) height, max (p_width (s ! f)) width,
                            pixels + p_height (s ! f) * p_width (s ! f)))
                      (t_frames t) acc)
       textures (0, 0, 0)"

text \<open>\<^verbatim>\<open>int.bit_length\<close>: the number of binary digits of the absolute value.\<close>

fun bit_length_nat :: "nat \<Rightarrow> nat" where
  "bit_length_nat n = (if n = 0 then 0 else Suc (bit_length_nat (n div 2)))"

definition bit_length :: "int \<Rightarrow> nat" where
  "bit_length i = bit_length_nat (nat \<bar>i\<bar>)"

text \<open>
  \<^verbatim>\<open>math.ceil(pixels ** 0.5)\<close> is computed in doubles. The total, which is not negative,
  is converted to the nearest double (ties to even; \<^verbatim>\<open>OverflowError\<close> when it is too
  large); the power is the C library's \<^verbatim>\<open>pow(x, 0.5)\<close>; the ceiling of that double is an
  int again. The power is taken here as the correctly rounded square root, which a C
  library's \<^verbatim>\<open>pow\<close> is up to the last binary place. For a total of at most \<open>2 ^ 52\<close> the last
  place does not reach the ceiling, since the root of a total that is not a square is
  then a whole unit of the last place away from every integer.
\<close>

text \<open>The floor of the exact square root of a natural number.\<close>

fun isqrt :: "nat \<Rightarrow> nat" where
  "isqrt n =
     (if n < 2 then n
      else let r = 2 * isqrt (n div 4) in if (r + 1) * (r + 1) \<le> n then r + 1 else r)"

text \<open>
  \<^verbatim>\<open>float(n)\<close>: the 53 leading bits of \<open>n\<close>, rounded to the nearest, ties to even. The
  double is an integer, held as a natural number.
\<close>

definition int_to_double :: "nat \<Rightarrow> error + nat" where
  "int_to_double n =
     (let e = bit_length_nat n - 53;
          q = n div 2 ^ e;
          r = n mod 2 ^ e;
          m = (if 2 ^ e < 2 * r \<or> (2 * r = 2 ^ e \<and> odd q) then q + 1 else q)
      in if 2 ^ 1024 \<le> m * 2 ^ e then Inl OverflowError else Inr (m * 2 ^ e))"

text \<open>
  The ceiling of the double square root of the double \<open>x\<close>. With
  \<open>2 ^ k \<le> sqrt x < 2 ^ (k + 1)\<close> the doubles around the root are the multiples of
  \<open>2 ^ (k - 52)\<close>, and \<open>m\<close> counts the multiple nearest to the root (ties to even): below
  \<open>k = 52\<close> the step is \<open>1 / 2 ^ i\<close> and the ceiling rounds \<open>m / 2 ^ i\<close> up, from
  \<open>k = 52\<close> on the step is \<open>2 ^ j\<close> and the double is an integer.
\<close>

definition double_sqrt_ceil :: "nat \<Rightarrow> nat" where
  "double_sqrt_ceil x =
     (if x = 0 then 0
      else
        let k = bit_length_nat (isqrt x) - 1 in
        if k < 52 then
          let i = 52 - k;
              f = isqrt (x * 4 ^ i);
              m = (if (2 * f + 1) * (2 * f + 1) < 4 * (x * 4 ^ i) then f + 1 else f)
          in (m + 2 ^ i - 1) div 2 ^ i
        else
          let j = k - 52;
              q = isqrt x div 2 ^ j;
              h = (2 * q + 1) * 2 ^ j;
              m = (if h * h < 4 * x \<or> (h * h = 4 * x \<and> odd q) then q + 1 else q)
          in m * 2 ^ j)"

definition ceil_sqrt :: "int \<Rightarrow> error + int" where
  "ceil_sqrt pixels =
     (case int_to_double (nat pixels) of
        Inl e \<Rightarrow> Inl e
      | Inr x \<Rightarrow> Inr (int (double_sqrt_ceil x)))"

definition initial_size :: "'a store \<Rightarrow> Texture list \<Rightarrow> error + int" where
  "initial_size s textures =
     (case measure_frames s textures of
        (height, width, pixels) \<Rightarrow>
          (case ceil_sqrt pixels of
             Inl e \<Rightarrow> Inl e
           | Inr c \<Rightarrow> Inr (max height (max width (push_bit (bit_length (c - 1)) 1)))))"

text \<open>\<^verbatim>\<open>for texture in textures: atlas.pack(texture)\<close>, left at the first raise.\<close>

fun pack_textures ::
  "TextureAtlas \<Rightarrow> Texture list \<Rightarrow> 'a store \<Rightarrow> error option \<times> TextureAtlas \<times> 'a store" where
  "pack_textures atlas [] s = (None, atlas, s)"
| "pack_textures atlas (texture # rest) s =
     (case TextureAtlas_pack atlas texture s of
        (None, atlas', s') \<Rightarrow> pack_textures atlas' rest s'
      | (Some e, atlas', s') \<Rightarrow> (Some e, atlas', s'))"

text \<open>
  The \<^verbatim>\<open>while not atlas_created\<close> loop. It has no bound, so not returning is \<open>None\<close>.
  The frames are those created before the loop: a retry packs the same objects again.
\<close>

partial_function (option) pack_loop ::
  "Texture list \<Rightarrow> int \<Rightarrow> 'a store \<Rightarrow> (error + (TextureAtlas \<times> 'a store)) option" where
  "pack_loop textures sz s =
     (case pack_textures (TextureAtlas_init sz sz) textures s of
        (None, atlas, s') \<Rightarrow> Some (Inr (atlas, s'))
      | (Some e, atlas, s') \<Rightarrow>
          if e = AtlasTooSmall then pack_loop textures (sz * 2) s' else Some (Inl e))"

text \<open>The part of \<^verbatim>\<open>create_atlas\<close> up to the end of the loop: the atlas and the frames.\<close>

definition build :: "decoder \<Rightarrow> ('k \<times> string) list \<Rightarrow> (error + (TextureAtlas \<times> Frame list)) option" where
  "build decode texture_dict =
     (case load_textures decode (map snd texture_dict) [] [] of
        Inl e \<Rightarrow> Some (Inl e)
      | Inr (s0, textures0) \<Rightarrow>
         (case sort_textures s0 textures0 of
            Inl e \<Rightarrow> Some (Inl e)
          | Inr textures \<Rightarrow>
             (case initial_size s0 textures of
                Inl e \<Rightarrow> Some (Inl e)
              | Inr sz \<Rightarrow> pack_loop textures sz s0)))"

text \<open>
  \<^verbatim>\<open>{tex_id: texture_bounds[texture_path] for tex_id, texture_path in texture_dict.items()}\<close>
\<close>

fun remap :: "(string \<rightharpoonup> uv) \<Rightarrow> ('k \<times> string) list \<Rightarrow> ('k \<rightharpoonup> uv) \<Rightarrow> error + ('k \<rightharpoonup> uv)" where
  "remap texture_bounds [] d = Inr d"
| "remap texture_bounds ((tex_id, texture_path) # rest) d =
     (case texture_bounds texture_path of
        None \<Rightarrow> Inl KeyError
      | Some b \<Rightarrow> remap texture_bounds rest (d(tex_id \<mapsto> b)))"

definition create_atlas ::
  "decoder \<Rightarrow> ('k \<times> string) list \<Rightarrow> (error + (8 word list \<times> ('k \<rightharpoonup> uv) \<times> int \<times> int)) option" where
  "create_atlas decode texture_dict =
     (case build decode texture_dict of
        None \<Rightarrow> None
      | Some (Inl e) \<Rightarrow> Some (Inl e)
      | Some (Inr (atlas, s)) \<Rightarrow>
         (case to_dict atlas s of
            Inl e \<Rightarrow> Some (Inl e)
          | Inr texture_bounds \<Rightarrow>
             (case remap texture_bounds texture_dict Map.empty of
                Inl e \<Rightarrow> Some (Inl e)
              | Inr bounds \<Rightarrow>
                  Some (Inr (ravel (generate atlas s), bounds,
                             r_width (a_region atlas), r_height (a_region atlas))))))"

declare pack_loop.simps [code]

section \<open>Notions used to state the properties\<close>

text \<open>The half-open box \<open>[x, x + width) \<times> [y, y + height)\<close> that a rectangle covers.\<close>

definition box :: "'a Packable_scheme \<Rightarrow> (int \<times> int) set" where
  "box p = {p_x p ..< p_x p + p_width p} \<times> {p_y p ..< p_y p + p_height p}"

text \<open>
  The regions and stores reached from a fresh root region at the origin by any sequence
  of calls of \<^const>\<open>pack\<close> on existing rectangles. The rectangles have the sizes of
  decoded images, which are not negative.
\<close>

inductive packed_from :: "int \<Rightarrow> int \<Rightarrow> PackRegion \<Rightarrow> 'a store \<Rightarrow> bool" for W H where
  fresh: "(\<forall>f \<in> set s. 0 \<le> p_width f \<and> 0 \<le> p_height f) \<Longrightarrow>
          packed_from W H (PackRegion_init 0 0 W H) s"
| step: "packed_from W H r s \<Longrightarrow> a < length s \<Longrightarrow> pack r a s = (ok, r', s') \<Longrightarrow>
         packed_from W H r' s'"

text \<open>The frames of a list of textures.\<close>

definition frames_of :: "Texture list \<Rightarrow> addr set" where
  "frames_of textures = (\<Union>t \<in> set textures. set (t_frames t))"

text \<open>
  The shape of a region tree that \<^const>\<open>pack\<close> maintains: the rectangle of an occupied
  region fits in it, and the two sub-regions are the strip below the rectangle and the
  area to its right.
\<close>

fun wf_region :: "'a store \<Rightarrow> PackRegion \<Rightarrow> bool" where
  "wf_region s (Empty rx ry rw rh) = True"
| "wf_region s (Occupied rx ry rw rh p s1 s2) =
     (0 \<le> p_width (s ! p) \<and> p_width (s ! p) \<le> rw \<and>
      0 \<le> p_height (s ! p) \<and> p_height (s ! p) \<le> rh \<and>
      r_x s1 = rx \<and> r_y s1 = ry + p_height (s ! p) \<and>
      r_width s1 = p_width (s ! p) \<and> r_height s1 = rh - p_height (s ! p) \<and>
      r_x s2 = rx + p_width (s ! p) \<and> r_y s2 = ry \<and>
      r_width s2 = rw - p_width (s ! p) \<and> r_height s2 = rh \<and>
      wf_region s s1 \<and> wf_region s s2)"

text \<open>The occupied regions of a tree: which rectangle, and the origin of the region.\<close>

fun placements :: "PackRegion \<Rightarrow> (addr \<times> int \<times> int) set" where
  "placements (Empty rx ry rw rh) = {}"
| "placements (Occupied rx ry rw rh p s1 s2) =
     insert (p, rx, ry) (placements s1 \<union> placements s2)"

text \<open>Every rectangle of the tree is in the store, at the origin of a region that holds it.\<close>

definition placed :: "'a store \<Rightarrow> PackRegion \<Rightarrow> bool" where
  "placed s r =
     (\<forall>a \<in> set (get_all_packables r).
        a < length s \<and> (a, p_x (s ! a), p_y (s ! a)) \<in> placements r)"

definition nbox :: "'a store \<Rightarrow> addr \<times> int \<times> int \<Rightarrow> (int \<times> int) set" where
  "nbox s n = (case n of (p, px, py) \<Rightarrow>
     {px ..< px + p_width (s ! p)} \<times> {py ..< py + p_height (s ! p)})"

text \<open>All frames of a list of textures, in order, and the total pixel area of frames.\<close>

definition all_frames :: "Texture list \<Rightarrow> addr list" where
  "all_frames textures = concat (map t_frames textures)"

definition total_area :: "'a store \<Rightarrow> addr list \<Rightarrow> int" where
  "total_area s fs = (\<Sum>f\<leftarrow>fs. p_height (s ! f) * p_width (s ! f))"

text \<open>
  For the end of the retry loop: the empty region at the end of the chain of second
  sub-regions, stores that agree on all sizes, the total width of frames, and a side
  length that is enough for them.
\<close>

fun rightmost :: "PackRegion \<Rightarrow> PackRegion" where
  "rightmost (Empty rx ry rw rh) = Empty rx ry rw rh"
| "rightmost (Occupied rx ry rw rh p s1 s2) = rightmost s2"

definition same_dims :: "'a store \<Rightarrow> 'a store \<Rightarrow> bool" where
  "same_dims s s' =
     (length s' = length s \<and>
      (\<forall>b. p_width (s' ! b) = p_width (s ! b) \<and> p_height (s' ! b) = p_height (s ! b)))"

definition total_width :: "'a store \<Rightarrow> addr list \<Rightarrow> int" where
  "total_width s fs = (\<Sum>f\<leftarrow>fs. p_width (s ! f))"

definition size_bound :: "'a store \<Rightarrow> addr list \<Rightarrow> int" where
  "size_bound s fs = total_width s fs + (\<Sum>f\<leftarrow>fs. max 0 (p_height (s ! f)))"

text \<open>
  Inputs for the examples: images of one colour, a decoder that knows four paths, the
  frame made from such an image, and two views of results.
\<close>

definition plain_image :: "nat \<Rightarrow> nat \<Rightarrow> Image" where
  "plain_image w h = \<lparr>i_width = w, i_height = h, i_pixel = (\<lambda>c r. (255, 255, 255, 255))\<rparr>"

definition example_decoder :: decoder where
  "example_decoder p =
     (if p = ''A'' then Some (plain_image 5 5)
      else if p = ''B'' then Some (plain_image 3 4)
      else if p = ''C'' then Some (plain_image 6 1)
      else if p = ''D'' then Some (plain_image 2 2)
      else None)"

definition example_frame :: "string \<Rightarrow> nat \<Rightarrow> nat \<Rightarrow> int \<Rightarrow> int \<Rightarrow> Frame" where
  "example_frame p w h px py =
     \<lparr>p_x = px, p_y = py, p_width = int w, p_height = int h, f_filename = p,
      f_image = plain_image w h\<rparr>"

definition uv_of ::
  "(error + (8 word list \<times> ('k \<rightharpoonup> uv) \<times> int \<times> int)) option \<Rightarrow> 'k \<Rightarrow> uv option" where
  "uv_of res k = (case res of Some (Inr (buf, bounds, w, h)) \<Rightarrow> bounds k | _ \<Rightarrow> None)"


text \<open>
  The atlas and the frames that \<^const>\<open>build\<close> makes of the mapping of the keys 1 and 2
  to the one path \<open>D\<close>, an image of 2 by 2 pixels.
\<close>

definition atlas_D :: TextureAtlas where
  "atlas_D =
     \<lparr>a_region = Occupied 0 0 4 4 0 (Occupied 0 2 2 2 1 (Empty 0 4 2 0) (Empty 2 2 0 2))
                    (Empty 2 0 2 4),
      a_textures = [Texture_init ''D'' [0], Texture_init ''D'' [1]]\<rparr>"

definition store_D :: "Frame list" where
  "store_D = [example_frame ''D'' 2 2 0 0, example_frame ''D'' 2 2 0 2]"

text \<open>
  A large input: 67108864 images of 8192 by 8192 pixels and one image of a single pixel,
  each the only frame of its texture.
\<close>

definition many_frames :: "Packable list" where
  "many_frames = replicate 67108864 (Packable_init 8192 8192) @ [Packable_init 1 1]"

definition many_textures :: "Texture list" where
  "many_textures =
     map (\<lambda>i. Texture_init (if i < 67108864 then ''tile'' else ''dot'') [i]) [0..<67108865]"

section \<open>PackRegion.pack\<close>

lemma pack_False_unchanged: "pack r a s = (False, r', s') \<Longrightarrow> r' = r \<and> s' = s"
proof (induction r arbitrary: r' s')
  case (Empty rx ry rw rh)
  then show ?case by (simp add: Let_def split: if_splits)
next
  case (Occupied rx ry rw rh p s1 s2)
  obtain ok1 s1' t1 where p1: "pack s1 a s = (ok1, s1', t1)" by (cases "pack s1 a s")
  show ?case
  proof (cases ok1)
    case True
    with p1 Occupied.prems show ?thesis by simp
  next
    case False
    with p1 Occupied.IH(1)[of s1' t1] have e1: "s1' = s1" "t1 = s" by simp_all
    obtain ok2 s2' t2 where p2: "pack s2 a s = (ok2, s2', t2)" by (cases "pack s2 a s")
    with p1 False e1 Occupied.prems
    have ok2: "\<not> ok2" and r': "r' = Occupied rx ry rw rh p s1 s2'" and s': "s' = t2"
      by simp_all
    from Occupied.IH(2)[of s2' t2] p2 ok2 have "s2' = s2 \<and> t2 = s" by simp
    with r' s' show ?thesis by simp
  qed
qed

lemma pack_Occupied:
  "pack (Occupied rx ry rw rh p s1 s2) a s =
     (if fst (pack s1 a s)
      then (True, Occupied rx ry rw rh p (fst (snd (pack s1 a s))) s2, snd (snd (pack s1 a s)))
      else (fst (pack s2 a s), Occupied rx ry rw rh p s1 (fst (snd (pack s2 a s))),
            snd (snd (pack s2 a s))))"
proof -
  obtain ok1 s1' t1 where p1: "pack s1 a s = (ok1, s1', t1)" by (cases "pack s1 a s")
  show ?thesis
  proof (cases ok1)
    case True
    with p1 show ?thesis by simp
  next
    case False
    with p1 pack_False_unchanged[of s1 a s s1' t1] have "s1' = s1" "t1 = s" by simp_all
    with p1 False show ?thesis by (simp split: prod.splits)
  qed
qed

lemma pack_Empty:
  "pack (Empty rx ry rw rh) a s =
     (if p_width (s ! a) \<le> rw \<and> p_height (s ! a) \<le> rh
      then (True, Occupied rx ry rw rh a
                    (Empty rx (ry + p_height (s ! a)) (p_width (s ! a)) (rh - p_height (s ! a)))
                    (Empty (rx + p_width (s ! a)) ry (rw - p_width (s ! a)) rh),
            s[a := (s ! a)\<lparr>p_x := rx, p_y := ry\<rparr>])
      else (False, Empty rx ry rw rh, s))"
proof (cases "a < length s")
  case True
  then show ?thesis by (auto simp: Let_def PackRegion_init_def)
next
  case False
  then have "s[a := (s ! a)\<lparr>p_x := rx, p_y := ry\<rparr>] = s" by (simp add: list_update_beyond)
  then show ?thesis by (auto simp: Let_def PackRegion_init_def)
qed

declare pack.simps [simp del]

lemma pack_Occupied_cases:
  assumes "pack s1 a s = (ok1, s1', t1)" and "pack s2 a s = (ok2, s2', t2)"
  shows "pack (Occupied rx ry rw rh p s1 s2) a s =
           (if ok1 then (True, Occupied rx ry rw rh p s1' s2, t1)
            else (ok2, Occupied rx ry rw rh p s1 s2', t2))"
  using assms by (simp add: pack_Occupied)

lemma pack_root:
  "pack r a s = (ok, r', s') \<Longrightarrow>
   r_x r' = r_x r \<and> r_y r' = r_y r \<and> r_width r' = r_width r \<and> r_height r' = r_height r"
  by (cases r) (auto simp: pack_Empty pack_Occupied split: if_splits)

lemma pack_effect:
  "pack r a s = (ok, r', s') \<Longrightarrow>
     (\<not> ok \<longrightarrow> r' = r \<and> s' = s) \<and>
     (ok \<longrightarrow> (\<exists>px py. s' = s[a := (s ! a)\<lparr>p_x := px, p_y := py\<rparr>] \<and> (a, px, py) \<in> placements r')) \<and>
     placements r \<subseteq> placements r' \<and>
     set (get_all_packables r') =
       (if ok then insert a (set (get_all_packables r)) else set (get_all_packables r))"
proof (induction r arbitrary: ok r' s')
  case (Empty rx ry rw rh)
  then show ?case by (auto simp: pack_Empty split: if_splits)
next
  case (Occupied rx ry rw rh p s1 s2)
  obtain ok1 s1' t1 where p1: "pack s1 a s = (ok1, s1', t1)" by (cases "pack s1 a s")
  obtain ok2 s2' t2 where p2: "pack s2 a s = (ok2, s2', t2)" by (cases "pack s2 a s")
  note res = pack_Occupied_cases[OF p1 p2, of rx ry rw rh p]
  show ?case
  proof (cases ok1)
    case True
    with res Occupied.prems have eq: "ok" "r' = Occupied rx ry rw rh p s1' s2" "s' = t1"
      by simp_all
    from Occupied.IH(1)[OF p1] True eq show ?thesis by auto
  next
    case False
    with res Occupied.prems have eq: "ok = ok2" "r' = Occupied rx ry rw rh p s1 s2'" "s' = t2"
      by simp_all
    from Occupied.IH(2)[OF p2] eq show ?thesis by auto
  qed
qed

lemma upd_dims:
  "p_width (s[a := (s ! a)\<lparr>p_x := px, p_y := py\<rparr>] ! b) = p_width (s ! b)"
  "p_height (s[a := (s ! a)\<lparr>p_x := px, p_y := py\<rparr>] ! b) = p_height (s ! b)"
  by (cases "a < length s"; cases "a = b"; simp add: list_update_beyond)+

lemma wf_region_update:
  "wf_region (s[a := (s ! a)\<lparr>p_x := px, p_y := py\<rparr>]) r = wf_region s r"
  by (induction r) (simp_all add: upd_dims)

lemma pack_wf:
  "pack r a s = (ok, r', s') \<Longrightarrow> wf_region s r \<Longrightarrow>
   0 \<le> p_width (s ! a) \<Longrightarrow> 0 \<le> p_height (s ! a) \<Longrightarrow> wf_region s' r'"
proof (induction r arbitrary: ok r' s')
  case (Empty rx ry rw rh)
  then show ?case by (auto simp: pack_Empty upd_dims split: if_splits)
next
  case (Occupied rx ry rw rh p s1 s2)
  obtain ok1 s1' t1 where p1: "pack s1 a s = (ok1, s1', t1)" by (cases "pack s1 a s")
  obtain ok2 s2' t2 where p2: "pack s2 a s = (ok2, s2', t2)" by (cases "pack s2 a s")
  note res = pack_Occupied_cases[OF p1 p2, of rx ry rw rh p]
  from Occupied.prems(2) have w1: "wf_region s s1" and w2: "wf_region s s2" by simp_all
  show ?case
  proof (cases ok1)
    case True
    with res Occupied.prems have eq: "r' = Occupied rx ry rw rh p s1' s2" "s' = t1"
      by simp_all
    from pack_effect[OF p1] True obtain px py where t1: "t1 = s[a := (s ! a)\<lparr>p_x := px, p_y := py\<rparr>]"
      by auto
    have "wf_region t1 s1'" using Occupied.IH(1)[OF p1 w1] Occupied.prems by simp
    moreover have "wf_region t1 s2" using w2 t1 by (simp add: wf_region_update)
    ultimately show ?thesis using eq Occupied.prems(2) pack_root[OF p1] t1
      by (simp add: upd_dims)
  next
    case False
    with res Occupied.prems have eq: "r' = Occupied rx ry rw rh p s1 s2'" "s' = t2"
      by simp_all
    have st: "t2 = s \<or> (\<exists>px py. t2 = s[a := (s ! a)\<lparr>p_x := px, p_y := py\<rparr>])"
      using pack_effect[OF p2] by (cases ok2) auto
    have "wf_region t2 s2'" using Occupied.IH(2)[OF p2 w2] Occupied.prems by simp
    moreover have "wf_region t2 s1" using w1 st by (auto simp: wf_region_update)
    ultimately show ?thesis using eq Occupied.prems(2) pack_root[OF p2] st
      by (auto simp: upd_dims)
  qed
qed

lemma pack_placed:
  assumes "pack r a s = (ok, r', s')" and "placed s r" and "a < length s"
  shows "placed s' r'"
proof (cases ok)
  case False
  with pack_effect[OF assms(1)] assms(2) show ?thesis by simp
next
  case True
  with pack_effect[OF assms(1)] obtain px py where
    s': "s' = s[a := (s ! a)\<lparr>p_x := px, p_y := py\<rparr>]" and
    pl: "(a, px, py) \<in> placements r'" and
    sub: "placements r \<subseteq> placements r'" and
    gap: "set (get_all_packables r') = insert a (set (get_all_packables r))"
    by auto
  show ?thesis
    unfolding placed_def
  proof
    fix b assume "b \<in> set (get_all_packables r')"
    with gap have b: "b = a \<or> b \<in> set (get_all_packables r)" by auto
    show "b < length s' \<and> (b, p_x (s' ! b), p_y (s' ! b)) \<in> placements r'"
    proof (cases "b = a")
      case True
      with s' pl assms(3) show ?thesis by simp
    next
      case False
      with b assms(2) have "b < length s \<and> (b, p_x (s ! b), p_y (s ! b)) \<in> placements r"
        by (simp add: placed_def)
      with False s' sub show ?thesis by auto
    qed
  qed
qed

lemma placements_inside:
  "wf_region s r \<Longrightarrow> (p, px, py) \<in> placements r \<Longrightarrow>
   r_x r \<le> px \<and> px + p_width (s ! p) \<le> r_x r + r_width r \<and>
   r_y r \<le> py \<and> py + p_height (s ! p) \<le> r_y r + r_height r"
proof (induction r)
  case (Empty rx ry rw rh)
  then show ?case by simp
next
  case (Occupied rx ry rw rh q s1 s2)
  from Occupied.prems(2) consider "(p, px, py) = (q, rx, ry)" | "(p, px, py) \<in> placements s1"
    | "(p, px, py) \<in> placements s2" by auto
  then show ?case
  proof cases
    case 1
    with Occupied.prems(1) show ?thesis by simp
  next
    case 2
    with Occupied.IH(1) Occupied.prems(1) show ?thesis by fastforce
  next
    case 3
    with Occupied.IH(2) Occupied.prems(1) show ?thesis by fastforce
  qed
qed

lemma placements_disjoint:
  "wf_region s r \<Longrightarrow> (p, px, py) \<in> placements r \<Longrightarrow> (q, qx, qy) \<in> placements r \<Longrightarrow> p \<noteq> q \<Longrightarrow>
   nbox s (p, px, py) \<inter> nbox s (q, qx, qy) = {}"
proof (induction r)
  case (Empty rx ry rw rh)
  then show ?case by simp
next
  case (Occupied rx ry rw rh c s1 s2)
  from Occupied.prems(1) have w1: "wf_region s s1" and w2: "wf_region s s2" by simp_all
  have in1: "\<And>n nx ny. (n, nx, ny) \<in> placements s1 \<Longrightarrow>
      rx \<le> nx \<and> nx + p_width (s ! n) \<le> rx + p_width (s ! c) \<and>
      ry + p_height (s ! c) \<le> ny \<and> ny + p_height (s ! n) \<le> ry + rh"
    using placements_inside[OF w1] Occupied.prems(1) by fastforce
  have in2: "\<And>n nx ny. (n, nx, ny) \<in> placements s2 \<Longrightarrow>
      rx + p_width (s ! c) \<le> nx \<and> nx + p_width (s ! n) \<le> rx + rw \<and>
      ry \<le> ny \<and> ny + p_height (s ! n) \<le> ry + rh"
    using placements_inside[OF w2] Occupied.prems(1) by fastforce
  from Occupied.prems(2) consider (p0) "(p, px, py) = (c, rx, ry)" | (p1) "(p, px, py) \<in> placements s1"
    | (p2) "(p, px, py) \<in> placements s2" by auto
  then show ?case
  proof cases
    case p0
    from Occupied.prems(3,4) p0 consider (q1) "(q, qx, qy) \<in> placements s1"
      | (q2) "(q, qx, qy) \<in> placements s2" by auto
    then show ?thesis
    proof cases
      case q1
      from in1[OF q1] p0 show ?thesis by (auto simp: nbox_def)
    next
      case q2
      from in2[OF q2] p0 show ?thesis by (auto simp: nbox_def)
    qed
  next
    case p1
    from Occupied.prems(3) consider (q0) "(q, qx, qy) = (c, rx, ry)" | (q1) "(q, qx, qy) \<in> placements s1"
      | (q2) "(q, qx, qy) \<in> placements s2" by auto
    then show ?thesis
    proof cases
      case q0
      from in1[OF p1] q0 show ?thesis by (auto simp: nbox_def)
    next
      case q1
      from Occupied.IH(1)[OF w1 p1 q1 Occupied.prems(4)] show ?thesis .
    next
      case q2
      from in1[OF p1] in2[OF q2] show ?thesis by (auto simp: nbox_def)
    qed
  next
    case p2
    from Occupied.prems(3) consider (q0) "(q, qx, qy) = (c, rx, ry)" | (q1) "(q, qx, qy) \<in> placements s1"
      | (q2) "(q, qx, qy) \<in> placements s2" by auto
    then show ?thesis
    proof cases
      case q0
      from in2[OF p2] q0 show ?thesis by (auto simp: nbox_def)
    next
      case q1
      from in2[OF p2] in1[OF q1] show ?thesis by (auto simp: nbox_def)
    next
      case q2
      from Occupied.IH(2)[OF w2 p2 q2 Occupied.prems(4)] show ?thesis .
    qed
  qed
qed

text \<open>
  Claim C3. On an empty region that the rectangle fits in, \<^const>\<open>pack\<close> gives the rectangle
  the region's origin, makes the two sub-regions (below: the rectangle's width and the
  rest of the height; right: the rest of the width and the full height) and returns true.
  On an empty region that the rectangle does not fit in it returns false and changes
  nothing. On an occupied region it tries the first sub-region, the second one only when
  the first refused, and returns true exactly when one of them accepted.
\<close>

theorem pack_contract:
  fixes s :: "'a store"
  shows
  "(p_width (s ! a) \<le> rw \<and> p_height (s ! a) \<le> rh \<longrightarrow>
      pack (Empty rx ry rw rh) a s =
        (True,
         Occupied rx ry rw rh a
           (Empty rx (ry + p_height (s ! a)) (p_width (s ! a)) (rh - p_height (s ! a)))
           (Empty (rx + p_width (s ! a)) ry (rw - p_width (s ! a)) rh),
         s[a := (s ! a)\<lparr>p_x := rx, p_y := ry\<rparr>])) \<and>
   (\<not> (p_width (s ! a) \<le> rw \<and> p_height (s ! a) \<le> rh) \<longrightarrow>
      pack (Empty rx ry rw rh) a s = (False, Empty rx ry rw rh, s)) \<and>
   pack (Occupied rx ry rw rh p s1 s2) a s =
     (if fst (pack s1 a s)
      then (True, Occupied rx ry rw rh p (fst (snd (pack s1 a s))) s2, snd (snd (pack s1 a s)))
      else (fst (pack s2 a s), Occupied rx ry rw rh p s1 (fst (snd (pack s2 a s))),
            snd (snd (pack s2 a s)))) \<and>
   fst (pack (Occupied rx ry rw rh p s1 s2) a s) = (fst (pack s1 a s) \<or> fst (pack s2 a s))"
proof (intro conjI)
  show "fst (pack (Occupied rx ry rw rh p s1 s2) a s) = (fst (pack s1 a s) \<or> fst (pack s2 a s))"
    by (simp add: pack_Occupied)
qed (simp_all add: pack_Empty pack_Occupied)

theorem pack_contract_witness:
  "pack (Empty 1 2 4 5) 0 [Packable_init 2 3] =
     (True, Occupied 1 2 4 5 0 (Empty 1 5 2 2) (Empty 3 2 2 5),
      [\<lparr>p_x = 1, p_y = 2, p_width = 2, p_height = 3\<rparr>]) \<and>
   pack (Empty 1 2 1 5) 0 [Packable_init 2 3] = (False, Empty 1 2 1 5, [Packable_init 2 3]) \<and>
   pack (Occupied 0 0 4 4 7 (Empty 0 3 1 1) (Empty 1 0 3 4)) 0 [Packable_init 2 3] =
     (True, Occupied 0 0 4 4 7 (Empty 0 3 1 1)
              (Occupied 1 0 3 4 0 (Empty 1 3 2 1) (Empty 3 0 1 4)),
      [\<lparr>p_x = 1, p_y = 0, p_width = 2, p_height = 3\<rparr>])"
proof -
  let ?s = "[Packable_init 2 3]"
  have a: "p_width (?s ! 0) \<le> 4 \<and> p_height (?s ! 0) \<le> 5" by (simp add: Packable_init_def)
  have b: "\<not> (p_width (?s ! 0) \<le> 1 \<and> p_height (?s ! 0) \<le> 5)" by (simp add: Packable_init_def)
  have c: "\<not> (p_width (?s ! 0) \<le> 1 \<and> p_height (?s ! 0) \<le> 1)" by (simp add: Packable_init_def)
  have d: "p_width (?s ! 0) \<le> 3 \<and> p_height (?s ! 0) \<le> 4" by (simp add: Packable_init_def)
  from pack_contract[of ?s 0 4 5 1 2] a
  have 1: "pack (Empty 1 2 4 5) 0 ?s =
     (True, Occupied 1 2 4 5 0 (Empty 1 5 2 2) (Empty 3 2 2 5),
      [\<lparr>p_x = 1, p_y = 2, p_width = 2, p_height = 3\<rparr>])"
    by (simp add: Packable_init_def)
  from pack_contract[of ?s 0 1 5 1 2] b
  have 2: "pack (Empty 1 2 1 5) 0 ?s = (False, Empty 1 2 1 5, ?s)" by simp
  from pack_contract[of ?s 0 1 1 0 3] c
  have 3: "pack (Empty 0 3 1 1) 0 ?s = (False, Empty 0 3 1 1, ?s)" by simp
  from pack_contract[of ?s 0 3 4 1 0] d
  have 4: "pack (Empty 1 0 3 4) 0 ?s =
     (True, Occupied 1 0 3 4 0 (Empty 1 3 2 1) (Empty 3 0 1 4),
      [\<lparr>p_x = 1, p_y = 0, p_width = 2, p_height = 3\<rparr>])"
    by (simp add: Packable_init_def)
  from pack_contract[of ?s 0 4 4 0 0 7 "Empty 0 3 1 1" "Empty 1 0 3 4"] 3 4
  have 5: "pack (Occupied 0 0 4 4 7 (Empty 0 3 1 1) (Empty 1 0 3 4)) 0 ?s =
     (True, Occupied 0 0 4 4 7 (Empty 0 3 1 1)
              (Occupied 1 0 3 4 0 (Empty 1 3 2 1) (Empty 3 0 1 4)),
      [\<lparr>p_x = 1, p_y = 0, p_width = 2, p_height = 3\<rparr>])"
    by simp
  from 1 2 5 show ?thesis by blast
qed

section \<open>Regions reached by packing\<close>

lemma nonneg_update:
  assumes "\<forall>f \<in> set s. 0 \<le> p_width f \<and> 0 \<le> p_height f"
  shows "\<forall>f \<in> set (s[a := (s ! a)\<lparr>p_x := px, p_y := py\<rparr>]). 0 \<le> p_width f \<and> 0 \<le> p_height f"
proof (cases "a < length s")
  case True
  then have "s ! a \<in> set s" by simp
  with assms have "0 \<le> p_width (s ! a) \<and> 0 \<le> p_height (s ! a)" by blast
  with assms set_update_subset_insert[of s a "(s ! a)\<lparr>p_x := px, p_y := py\<rparr>"]
  show ?thesis by auto
next
  case False
  with assms show ?thesis by (simp add: list_update_beyond)
qed

lemma pack_nonneg:
  assumes "pack r a s = (ok, r', s')" and "\<forall>f \<in> set s. 0 \<le> p_width f \<and> 0 \<le> p_height f"
  shows "\<forall>f \<in> set s'. 0 \<le> p_width f \<and> 0 \<le> p_height f"
proof (cases ok)
  case True
  with pack_effect[OF assms(1)] obtain px py where "s' = s[a := (s ! a)\<lparr>p_x := px, p_y := py\<rparr>]"
    by auto
  with nonneg_update[OF assms(2)] show ?thesis by simp
next
  case False
  with pack_effect[OF assms(1)] assms(2) show ?thesis by simp
qed

lemma pack_length: "pack r a s = (ok, r', s') \<Longrightarrow> length s' = length s"
  using pack_effect[of r a s ok r' s'] by (cases ok) auto

lemma packed_from_inv:
  "packed_from W H r s \<Longrightarrow>
     wf_region s r \<and> placed s r \<and> r_x r = 0 \<and> r_y r = 0 \<and> r_width r = W \<and> r_height r = H \<and>
     (\<forall>f \<in> set s. 0 \<le> p_width f \<and> 0 \<le> p_height f)"
proof (induction rule: packed_from.induct)
  case (fresh s)
  then show ?case by (simp add: PackRegion_init_def placed_def)
next
  case (step r s a ok r' s')
  from step.IH step.hyps(2) have nn: "0 \<le> p_width (s ! a)" "0 \<le> p_height (s ! a)"
    by (simp_all add: nth_mem)
  from step.IH have wf: "wf_region s r" and pl: "placed s r"
    and dims: "\<forall>f \<in> set s. 0 \<le> p_width f \<and> 0 \<le> p_height f" by simp_all
  have "wf_region s' r'" using pack_wf[OF step.hyps(3) wf nn] .
  moreover have "placed s' r'" using pack_placed[OF step.hyps(3) pl step.hyps(2)] .
  moreover have "\<forall>f \<in> set s'. 0 \<le> p_width f \<and> 0 \<le> p_height f"
    using pack_nonneg[OF step.hyps(3) dims] .
  ultimately show ?case using pack_root[OF step.hyps(3)] step.IH by simp
qed

lemma packed_inside:
  assumes "packed_from W H r s" and "a \<in> set (get_all_packables r)"
  shows "0 \<le> p_x (s ! a) \<and> p_x (s ! a) + p_width (s ! a) \<le> W \<and>
         0 \<le> p_y (s ! a) \<and> p_y (s ! a) + p_height (s ! a) \<le> H"
proof -
  from packed_from_inv[OF assms(1)] have wf: "wf_region s r" and pl: "placed s r"
    and root: "r_x r = 0" "r_y r = 0" "r_width r = W" "r_height r = H" by simp_all
  from pl assms(2) have "(a, p_x (s ! a), p_y (s ! a)) \<in> placements r"
    by (simp add: placed_def)
  from placements_inside[OF wf this] root show ?thesis by simp
qed

lemma packed_disjoint:
  assumes "packed_from W H r s" and "a \<in> set (get_all_packables r)"
    and "b \<in> set (get_all_packables r)" and "a \<noteq> b"
  shows "box (s ! a) \<inter> box (s ! b) = {}"
proof -
  from packed_from_inv[OF assms(1)] have wf: "wf_region s r" and pl: "placed s r" by simp_all
  from pl assms(2,3) have "(a, p_x (s ! a), p_y (s ! a)) \<in> placements r"
    and "(b, p_x (s ! b), p_y (s ! b)) \<in> placements r"
    by (simp_all add: placed_def)
  from placements_disjoint[OF wf this assms(4)] show ?thesis by (simp add: nbox_def box_def)
qed

lemma pack_frames_packed:
  "packed_from W H r s \<Longrightarrow> set fs \<subseteq> {..<length s} \<Longrightarrow> pack_frames r fs s = (e, r', s') \<Longrightarrow>
     packed_from W H r' s' \<and> length s' = length s \<and>
     set (get_all_packables r) \<subseteq> set (get_all_packables r') \<and>
     (e = None \<longrightarrow> set (get_all_packables r') = set fs \<union> set (get_all_packables r))"
proof (induction fs arbitrary: r s)
  case Nil
  then show ?case by simp
next
  case (Cons f fs)
  obtain ok r1 s1 where p: "pack r f s = (ok, r1, s1)" by (cases "pack r f s")
  from Cons.prems(2) have f: "f < length s" by simp
  have pf: "packed_from W H r1 s1" using packed_from.step[OF Cons.prems(1) f p] .
  have len: "length s1 = length s" using pack_length[OF p] .
  have gap: "set (get_all_packables r1) =
      (if ok then insert f (set (get_all_packables r)) else set (get_all_packables r))"
    using pack_effect[OF p] by simp
  show ?case
  proof (cases ok)
    case False
    with p Cons.prems(3) have "e = Some AtlasTooSmall" "r' = r1" "s' = s1" by simp_all
    with pf len gap False show ?thesis by simp
  next
    case True
    with p Cons.prems(3) have rest: "pack_frames r1 fs s1 = (e, r', s')" by simp
    from Cons.prems(2) len have "set fs \<subseteq> {..<length s1}" by simp
    from Cons.IH[OF pf this rest] len gap True show ?thesis by auto
  qed
qed

lemma TextureAtlas_pack_packed:
  assumes "packed_from W H (a_region atlas) s" and "set (t_frames texture) \<subseteq> {..<length s}"
    and "TextureAtlas_pack atlas texture s = (e, atlas', s')"
  shows "packed_from W H (a_region atlas') s' \<and> length s' = length s \<and>
     a_textures atlas' = a_textures atlas @ [texture] \<and>
     set (get_all_packables (a_region atlas)) \<subseteq> set (get_all_packables (a_region atlas')) \<and>
     (e = None \<longrightarrow> set (get_all_packables (a_region atlas')) =
        set (t_frames texture) \<union> set (get_all_packables (a_region atlas)))"
proof -
  obtain e1 r1 s1 where p: "pack_frames (a_region atlas) (t_frames texture) s = (e1, r1, s1)"
    by (cases "pack_frames (a_region atlas) (t_frames texture) s")
  with assms(3) have eq: "e = e1" "s' = s1"
    "atlas' = atlas\<lparr>a_textures := a_textures atlas @ [texture], a_region := r1\<rparr>"
    by (simp_all add: TextureAtlas_pack_def)
  from pack_frames_packed[OF assms(1,2) p] eq show ?thesis by simp
qed

lemma pack_textures_packed:
  "packed_from W H (a_region atlas) s \<Longrightarrow> frames_of textures \<subseteq> {..<length s} \<Longrightarrow>
   pack_textures atlas textures s = (e, atlas', s') \<Longrightarrow>
     packed_from W H (a_region atlas') s' \<and> length s' = length s \<and>
     (e = None \<longrightarrow> a_textures atlas' = a_textures atlas @ textures \<and>
        set (get_all_packables (a_region atlas')) =
          frames_of textures \<union> set (get_all_packables (a_region atlas)))"
proof (induction textures arbitrary: atlas s)
  case Nil
  then show ?case by (simp add: frames_of_def)
next
  case (Cons t ts)
  obtain e1 a1 s1 where p: "TextureAtlas_pack atlas t s = (e1, a1, s1)"
    by (cases "TextureAtlas_pack atlas t s")
  from Cons.prems(2) have ft: "set (t_frames t) \<subseteq> {..<length s}"
    and fts: "frames_of ts \<subseteq> {..<length s}" by (simp_all add: frames_of_def)
  note one = TextureAtlas_pack_packed[OF Cons.prems(1) ft p]
  show ?case
  proof (cases e1)
    case (Some err)
    with p Cons.prems(3) have "e = Some err" "atlas' = a1" "s' = s1" by simp_all
    with one show ?thesis by simp
  next
    case None
    with p Cons.prems(3) have rest: "pack_textures a1 ts s1 = (e, atlas', s')" by simp
    from one fts have "frames_of ts \<subseteq> {..<length s1}" by simp
    from Cons.IH[OF _ this rest] one None show ?thesis by (auto simp: frames_of_def)
  qed
qed

lemma fresh_atlas_packed:
  "\<forall>f \<in> set s. 0 \<le> p_width f \<and> 0 \<le> p_height f \<Longrightarrow>
   packed_from W H (a_region (TextureAtlas_init W H)) s"
  by (simp add: TextureAtlas_init_def packed_from.fresh)

text \<open>
  Claim C1. When every texture has been packed into a fresh atlas without a raise (every
  frame was accepted by \<^const>\<open>pack\<close>), the rectangles in the atlas are exactly the frames
  of the textures, and the boxes \<open>[x, x + width) \<times> [y, y + height)\<close> of any two distinct
  frames do not intersect.
\<close>

theorem no_overlap:
  fixes s :: "'a store"
  assumes "pack_textures (TextureAtlas_init W H) textures s = (None, atlas, s')"
    and "\<forall>f \<in> set s. 0 \<le> p_width f \<and> 0 \<le> p_height f"
    and "frames_of textures \<subseteq> {..<length s}"
  shows "set (get_all_packables (a_region atlas)) = frames_of textures \<and>
         (\<forall>a \<in> frames_of textures. \<forall>b \<in> frames_of textures.
            a \<noteq> b \<longrightarrow> box (s' ! a) \<inter> box (s' ! b) = {})"
proof -
  note pt = pack_textures_packed[OF fresh_atlas_packed[OF assms(2)] assms(3) assms(1)]
  from pt have pf: "packed_from W H (a_region atlas) s'" by simp
  from pt have gap: "set (get_all_packables (a_region atlas)) = frames_of textures"
    by (simp add: TextureAtlas_init_def PackRegion_init_def)
  from packed_disjoint[OF pf] gap show ?thesis by simp
qed

theorem no_overlap_witness:
  "pack_textures (TextureAtlas_init 4 4) [Texture_init ''a'' [0], Texture_init ''b'' [1]]
      [Packable_init 2 2, Packable_init 2 3] =
     (None,
      \<lparr>a_region = Occupied 0 0 4 4 0 (Empty 0 2 2 2)
                     (Occupied 2 0 2 4 1 (Empty 2 3 2 1) (Empty 4 0 0 4)),
       a_textures = [Texture_init ''a'' [0], Texture_init ''b'' [1]]\<rparr>,
      [\<lparr>p_x = 0, p_y = 0, p_width = 2, p_height = 2\<rparr>,
       \<lparr>p_x = 2, p_y = 0, p_width = 2, p_height = 3\<rparr>]) \<and>
   box \<lparr>p_x = 0, p_y = 0, p_width = 2, p_height = 2\<rparr> \<inter>
   box \<lparr>p_x = 2, p_y = 0, p_width = 2, p_height = 3\<rparr> = {}"
proof -
  let ?ts = "[Texture_init ''a'' [0], Texture_init ''b'' [1]]"
  let ?s = "[Packable_init 2 2, Packable_init 2 3]"
  let ?s' = "[\<lparr>p_x = 0, p_y = 0, p_width = 2, p_height = 2\<rparr>,
              \<lparr>p_x = 2, p_y = 0, p_width = 2, p_height = 3\<rparr>]"
  have run: "pack_textures (TextureAtlas_init 4 4) ?ts ?s =
     (None,
      \<lparr>a_region = Occupied 0 0 4 4 0 (Empty 0 2 2 2)
                     (Occupied 2 0 2 4 1 (Empty 2 3 2 1) (Empty 4 0 0 4)),
       a_textures = ?ts\<rparr>, ?s')"
    by (simp add: TextureAtlas_pack_def TextureAtlas_init_def PackRegion_init_def
        Texture_init_def Packable_init_def pack_Empty pack_Occupied)
  have dims: "\<forall>f \<in> set ?s. 0 \<le> p_width f \<and> 0 \<le> p_height f"
    by (simp add: Packable_init_def)
  have fr: "frames_of ?ts \<subseteq> {..<length ?s}"
    by (simp add: frames_of_def Texture_init_def)
  have mem: "0 \<in> frames_of ?ts" "1 \<in> frames_of ?ts"
    by (simp_all add: frames_of_def Texture_init_def)
  from no_overlap[OF run dims fr] mem have "box (?s' ! 0) \<inter> box (?s' ! 1) = {}"
    by (metis zero_neq_one)
  with run show ?thesis by simp
qed

text \<open>
  Claim C2. In a region tree grown from the root region at \<open>(0, 0)\<close> of width and height
  \<open>sz\<close>, a call of \<^const>\<open>pack\<close> that returns true leaves the rectangle inside the square:
  \<open>x \<ge> 0\<close>, \<open>y \<ge> 0\<close>, \<open>x + width \<le> sz\<close>, \<open>y + height \<le> sz\<close>; and so lies every
  rectangle packed before it.
\<close>

theorem containment:
  fixes s :: "'a store"
  assumes "packed_from sz sz r s" and "a < length s" and "pack r a s = (True, r', s')"
  shows "(0 \<le> p_x (s' ! a) \<and> 0 \<le> p_y (s' ! a) \<and>
          p_x (s' ! a) + p_width (s' ! a) \<le> sz \<and> p_y (s' ! a) + p_height (s' ! a) \<le> sz) \<and>
         (\<forall>b \<in> set (get_all_packables r').
            0 \<le> p_x (s' ! b) \<and> 0 \<le> p_y (s' ! b) \<and>
            p_x (s' ! b) + p_width (s' ! b) \<le> sz \<and> p_y (s' ! b) + p_height (s' ! b) \<le> sz)"
proof -
  have pf: "packed_from sz sz r' s'" using packed_from.step[OF assms] .
  from pack_effect[OF assms(3)] have "a \<in> set (get_all_packables r')" by simp
  with packed_inside[OF pf] show ?thesis by blast
qed

theorem containment_witness:
  "packed_from 4 4 (PackRegion_init 0 0 4 4) [Packable_init 2 3] \<and>
   pack (PackRegion_init 0 0 4 4) 0 [Packable_init 2 3] =
     (True, Occupied 0 0 4 4 0 (Empty 0 3 2 1) (Empty 2 0 2 4),
      [\<lparr>p_x = 0, p_y = 0, p_width = 2, p_height = 3\<rparr>]) \<and>
   (0::int) + 2 \<le> 4 \<and> (0::int) + 3 \<le> 4"
proof -
  let ?s = "[Packable_init 2 3]"
  have pf: "packed_from 4 4 (PackRegion_init 0 0 4 4) ?s"
    by (rule packed_from.fresh) (simp add: Packable_init_def)
  have a: "0 < length ?s" by simp
  have run: "pack (PackRegion_init 0 0 4 4) 0 ?s =
     (True, Occupied 0 0 4 4 0 (Empty 0 3 2 1) (Empty 2 0 2 4),
      [\<lparr>p_x = 0, p_y = 0, p_width = 2, p_height = 3\<rparr>])"
    by (simp add: PackRegion_init_def Packable_init_def pack_Empty)
  from containment[OF pf a run] have "(0::int) + 2 \<le> 4 \<and> (0::int) + 3 \<le> 4" by simp
  with pf run show ?thesis by simp
qed

section \<open>TextureAtlas.pack\<close>

lemma pack_frames_result:
  "pack_frames r fs s = (e, r', s') \<Longrightarrow>
     (e = None \<and> set (get_all_packables r') = set fs \<union> set (get_all_packables r)) \<or>
     (e = Some AtlasTooSmall \<and>
      (\<exists>pre f post. fs = pre @ f # post \<and> pack_frames r pre s = (None, r', s') \<and>
         pack r' f s' = (False, r', s')))"
proof (induction fs arbitrary: r s)
  case Nil
  then show ?case by simp
next
  case (Cons f fs)
  obtain ok r1 s1 where p: "pack r f s = (ok, r1, s1)" by (cases "pack r f s")
  show ?case
  proof (cases ok)
    case False
    with p pack_False_unchanged[of r f s r1 s1] have same: "r1 = r" "s1 = s" by simp_all
    with p False Cons.prems have "e = Some AtlasTooSmall" "r' = r" "s' = s" by simp_all
    moreover have "\<exists>pre g post. f # fs = pre @ g # post \<and> pack_frames r pre s = (None, r, s) \<and>
         pack r g s = (False, r, s)"
      using p False same by (intro exI[of _ "[]"] exI[of _ f] exI[of _ fs]) simp
    ultimately show ?thesis by simp
  next
    case True
    with p Cons.prems have rest: "pack_frames r1 fs s1 = (e, r', s')" by simp
    from pack_effect[OF p] True
    have gap: "set (get_all_packables r1) = insert f (set (get_all_packables r))" by simp
    from Cons.IH[OF rest] show ?thesis
    proof
      assume "e = None \<and> set (get_all_packables r') = set fs \<union> set (get_all_packables r1)"
      with gap show ?thesis by auto
    next
      assume "e = Some AtlasTooSmall \<and>
        (\<exists>pre g post. fs = pre @ g # post \<and> pack_frames r1 pre s1 = (None, r', s') \<and>
           pack r' g s' = (False, r', s'))"
      then obtain pre g post where e: "e = Some AtlasTooSmall" and fs: "fs = pre @ g # post"
        and pre: "pack_frames r1 pre s1 = (None, r', s')" and g: "pack r' g s' = (False, r', s')"
        by blast
      from fs have "f # fs = (f # pre) @ g # post" by simp
      moreover from p True pre have "pack_frames r (f # pre) s = (None, r', s')" by simp
      ultimately have "\<exists>pre g post. f # fs = pre @ g # post \<and>
          pack_frames r pre s = (None, r', s') \<and> pack r' g s' = (False, r', s')"
        using g by (intro exI[of _ "f # pre"] exI[of _ g] exI[of _ post]) simp
      with e show ?thesis by simp
    qed
  qed
qed

text \<open>
  Claim C5, as amended. \<^const>\<open>TextureAtlas_pack\<close> appends the texture to the sequence
  before it packs a frame, so the texture is in the sequence whatever happens. It then
  packs the frames in order; it returns normally when every frame was accepted, and
  raises \<^const>\<open>AtlasTooSmall\<close> at the first frame that is refused, in the state reached by
  the frames before it.
\<close>

theorem TextureAtlas_pack_appends_first:
  assumes "TextureAtlas_pack atlas texture s = (e, atlas', s')"
  shows "a_textures atlas' = a_textures atlas @ [texture] \<and>
    ((e = None \<and>
      set (get_all_packables (a_region atlas')) =
        set (t_frames texture) \<union> set (get_all_packables (a_region atlas))) \<or>
     (e = Some AtlasTooSmall \<and>
      (\<exists>pre f post. t_frames texture = pre @ f # post \<and>
         pack_frames (a_region atlas) pre s = (None, a_region atlas', s') \<and>
         pack (a_region atlas') f s' = (False, a_region atlas', s'))))"
proof -
  obtain e1 r1 s1 where p: "pack_frames (a_region atlas) (t_frames texture) s = (e1, r1, s1)"
    by (cases "pack_frames (a_region atlas) (t_frames texture) s")
  with assms have eq: "e = e1" "s' = s1"
    "atlas' = atlas\<lparr>a_textures := a_textures atlas @ [texture], a_region := r1\<rparr>"
    by (simp_all add: TextureAtlas_pack_def)
  from pack_frames_result[OF p] eq show ?thesis by simp
qed

theorem TextureAtlas_pack_appends_first_witness:
  "TextureAtlas_pack (TextureAtlas_init 4 4) (Texture_init ''t'' [0, 1])
     [Packable_init 2 2, Packable_init 5 1] =
     (Some AtlasTooSmall,
      \<lparr>a_region = Occupied 0 0 4 4 0 (Empty 0 2 2 2) (Empty 2 0 2 4),
       a_textures = [Texture_init ''t'' [0, 1]]\<rparr>,
      [\<lparr>p_x = 0, p_y = 0, p_width = 2, p_height = 2\<rparr>, Packable_init 5 1]) \<and>
   a_textures \<lparr>a_region = Occupied 0 0 4 4 0 (Empty 0 2 2 2) (Empty 2 0 2 4),
       a_textures = [Texture_init ''t'' [0, 1]]\<rparr> =
     a_textures (TextureAtlas_init 4 4) @ [Texture_init ''t'' [0, 1]]"
proof -
  have run: "TextureAtlas_pack (TextureAtlas_init 4 4) (Texture_init ''t'' [0, 1])
     [Packable_init 2 2, Packable_init 5 1] =
     (Some AtlasTooSmall,
      \<lparr>a_region = Occupied 0 0 4 4 0 (Empty 0 2 2 2) (Empty 2 0 2 4),
       a_textures = [Texture_init ''t'' [0, 1]]\<rparr>,
      [\<lparr>p_x = 0, p_y = 0, p_width = 2, p_height = 2\<rparr>, Packable_init 5 1])"
    by (simp add: TextureAtlas_pack_def TextureAtlas_init_def PackRegion_init_def
        Texture_init_def Packable_init_def pack_Empty pack_Occupied)
  from TextureAtlas_pack_appends_first[OF run, THEN conjunct1] run show ?thesis by simp
qed

text \<open>
  The statement of C5 in the specification fails here: the frame does not fit, the call
  raises, and the texture is in the sequence of the atlas all the same.
\<close>

theorem TextureAtlas_pack_counterexample:
  "TextureAtlas_pack (TextureAtlas_init 1 1) (Texture_init ''t'' [0]) [Packable_init 2 2] =
     (Some AtlasTooSmall,
      \<lparr>a_region = Empty 0 0 1 1, a_textures = [Texture_init ''t'' [0]]\<rparr>,
      [Packable_init 2 2])"
  by (simp add: TextureAtlas_pack_def TextureAtlas_init_def PackRegion_init_def
      Texture_init_def Packable_init_def pack_Empty)

section \<open>to_dict\<close>

lemma to_dict_loop_other:
  "to_dict_loop atlas s texs d = Inr d' \<Longrightarrow> n \<notin> t_name ` set texs \<Longrightarrow> d' n = d n"
  by (induction texs arbitrary: d) (auto split: sum.splits)

lemma to_dict_loop_last:
  "to_dict_loop atlas s texs d = Inr d' \<Longrightarrow> i < length texs \<Longrightarrow>
   (\<forall>j. i < j \<and> j < length texs \<longrightarrow> t_name (texs ! j) \<noteq> t_name (texs ! i)) \<Longrightarrow>
   (\<exists>b. bounds_entry atlas s (texs ! i) = Inr b \<and> d' (t_name (texs ! i)) = Some b)"
proof (induction texs arbitrary: d i)
  case Nil
  then show ?case by simp
next
  case (Cons t ts)
  from Cons.prems(1) obtain b where b: "bounds_entry atlas s t = Inr b"
    and rest: "to_dict_loop atlas s ts (d(t_name t \<mapsto> b)) = Inr d'"
    by (auto split: sum.splits)
  show ?case
  proof (cases i)
    case 0
    have "t_name t \<notin> t_name ` set ts"
    proof
      assume "t_name t \<in> t_name ` set ts"
      then obtain k where "k < length ts" "t_name (ts ! k) = t_name t"
        by (auto simp: in_set_conv_nth)
      with Cons.prems(3)[rule_format, of "Suc k"] 0 show False by simp
    qed
    from to_dict_loop_other[OF rest this] have "d' (t_name t) = Some b" by simp
    with b 0 show ?thesis by (intro exI[of _ b]) simp
  next
    case (Suc k)
    with Cons.prems(2) have k: "k < length ts" by simp
    have "\<forall>j. k < j \<and> j < length ts \<longrightarrow> t_name (ts ! j) \<noteq> t_name (ts ! k)"
    proof (intro allI impI)
      fix j assume "k < j \<and> j < length ts"
      with Cons.prems(3)[rule_format, of "Suc j"] Suc show "t_name (ts ! j) \<noteq> t_name (ts ! k)"
        by simp
    qed
    from Cons.IH[OF rest k this] Suc show ?thesis by simp
  qed
qed

text \<open>
  Claim C4, as amended. The table of \<^const>\<open>to_dict\<close> is keyed by the texture name, and a
  later texture of the same name overwrites the entry. For a packed texture that no
  texture packed later shares its name with, whose first frame is at \<open>(x, y)\<close> with size
  \<open>(w, h)\<close> in an atlas of width \<open>W\<close> and height \<open>H\<close>, the entry under the texture's name
  is \<open>(x / W, y / H, (x + w) / W, (y + min h w) / H)\<close>: the last coordinate uses the
  smaller of height and width. So the entry under a name is the tuple of the last
  texture packed with that name.
\<close>

theorem to_dict_entry:
  assumes "to_dict atlas s = Inr d"
    and "i < length (a_textures atlas)"
    and "\<forall>j. i < j \<and> j < length (a_textures atlas) \<longrightarrow>
           t_name (a_textures atlas ! j) \<noteq> t_name (a_textures atlas ! i)"
    and "t_frames (a_textures atlas ! i) = f0 # rest"
  shows "d (t_name (a_textures atlas ! i)) =
     Some (rat_of_int (p_x (s ! f0)) / rat_of_int (r_width (a_region atlas)),
           rat_of_int (p_y (s ! f0)) / rat_of_int (r_height (a_region atlas)),
           rat_of_int (p_x (s ! f0) + p_width (s ! f0)) / rat_of_int (r_width (a_region atlas)),
           rat_of_int (p_y (s ! f0) + min (p_height (s ! f0)) (p_width (s ! f0))) /
             rat_of_int (r_height (a_region atlas)))"
proof -
  from assms(1) have "to_dict_loop atlas s (a_textures atlas) Map.empty = Inr d"
    by (simp add: to_dict_def)
  from to_dict_loop_last[OF this assms(2,3)] obtain b where
    b: "bounds_entry atlas s (a_textures atlas ! i) = Inr b"
    and d: "d (t_name (a_textures atlas ! i)) = Some b" by blast
  from b assms(4) have "b =
          (rat_of_int (p_x (s ! f0)) / rat_of_int (r_width (a_region atlas)),
           rat_of_int (p_y (s ! f0)) / rat_of_int (r_height (a_region atlas)),
           rat_of_int (p_x (s ! f0) + p_width (s ! f0)) / rat_of_int (r_width (a_region atlas)),
           rat_of_int (p_y (s ! f0) + min (p_height (s ! f0)) (p_width (s ! f0))) /
             rat_of_int (r_height (a_region atlas)))"
    by (simp add: bounds_entry_def truediv_def split: if_splits)
  with d show ?thesis by simp
qed

theorem to_dict_entry_witness:
  "to_dict \<lparr>a_region = Occupied 0 0 4 4 0 (Empty 0 2 2 2)
                         (Occupied 2 0 2 4 1 (Empty 2 3 2 1) (Empty 4 0 0 4)),
            a_textures = [Texture_init ''a'' [0], Texture_init ''b'' [1]]\<rparr>
      [\<lparr>p_x = 0, p_y = 0, p_width = 2, p_height = 2\<rparr>,
       \<lparr>p_x = 2, p_y = 0, p_width = 2, p_height = 3\<rparr>] =
     Inr [''a'' \<mapsto> (0, 0, 1 / 2, 1 / 2), ''b'' \<mapsto> (1 / 2, 0, 1, 1 / 2)] \<and>
   [''a'' \<mapsto> (0, 0, 1 / 2, 1 / 2), ''b'' \<mapsto> (1 / 2, 0, 1, 1 / 2 :: rat)] ''b'' =
     Some (rat_of_int 2 / rat_of_int 4, rat_of_int 0 / rat_of_int 4,
           rat_of_int (2 + 2) / rat_of_int 4, rat_of_int (0 + min 3 2) / rat_of_int 4)"
proof -
  let ?atlas = "\<lparr>a_region = Occupied 0 0 4 4 0 (Empty 0 2 2 2)
                         (Occupied 2 0 2 4 1 (Empty 2 3 2 1) (Empty 4 0 0 4)),
            a_textures = [Texture_init ''a'' [0], Texture_init ''b'' [1]]\<rparr>"
  let ?s = "[\<lparr>p_x = 0, p_y = 0, p_width = 2, p_height = 2\<rparr>,
             \<lparr>p_x = 2, p_y = 0, p_width = 2, p_height = 3\<rparr>]"
  let ?d = "[''a'' \<mapsto> (0, 0, 1 / 2, 1 / 2), ''b'' \<mapsto> (1 / 2, 0, 1, 1 / 2 :: rat)]"
  have run: "to_dict ?atlas ?s = Inr ?d"
    by (simp add: to_dict_def bounds_entry_def truediv_def Texture_init_def)
  have i: "1 < length (a_textures ?atlas)" by simp
  have last: "\<forall>j. 1 < j \<and> j < length (a_textures ?atlas) \<longrightarrow>
      t_name (a_textures ?atlas ! j) \<noteq> t_name (a_textures ?atlas ! 1)" by simp
  have fr: "t_frames (a_textures ?atlas ! 1) = 1 # []" by (simp add: Texture_init_def)
  from to_dict_entry[OF run i last fr] run show ?thesis by (simp add: Texture_init_def)
qed

section \<open>The initial size\<close>

declare bit_length_nat.simps [simp del]

declare isqrt.simps [simp del]

lemma bit_length_nat_0: "bit_length_nat 0 = 0"
  by (subst bit_length_nat.simps) simp

lemma bit_length_nat_pos: "n \<noteq> 0 \<Longrightarrow> bit_length_nat n = Suc (bit_length_nat (n div 2))"
  by (subst bit_length_nat.simps) simp

lemma bit_length_nat_upper: "n < 2 ^ bit_length_nat n"
proof (induction n rule: bit_length_nat.induct)
  case (1 n)
  show ?case
  proof (cases "n = 0")
    case True
    then show ?thesis by (simp add: bit_length_nat_0)
  next
    case False
    from "1.IH"[OF False] have "n div 2 < 2 ^ bit_length_nat (n div 2)" .
    then have "n < 2 * 2 ^ bit_length_nat (n div 2)" by linarith
    with False show ?thesis by (simp add: bit_length_nat_pos)
  qed
qed

lemma bit_length_nat_lower: "0 < n \<Longrightarrow> 2 ^ bit_length_nat n \<le> 2 * n"
proof (induction n rule: bit_length_nat.induct)
  case (1 n)
  then have n: "n \<noteq> 0" by simp
  show ?case
  proof (cases "n div 2 = 0")
    case True
    with n have "n = 1" by arith
    then show ?thesis by (simp add: bit_length_nat_pos bit_length_nat_0)
  next
    case False
    from "1.IH"[OF n] False have "2 ^ bit_length_nat (n div 2) \<le> 2 * (n div 2)" by simp
    then have "2 * 2 ^ bit_length_nat (n div 2) \<le> 2 * n" by linarith
    with n show ?thesis by (simp add: bit_length_nat_pos)
  qed
qed

lemma isqrt_floor: "isqrt n * isqrt n \<le> n \<and> n < (isqrt n + 1) * (isqrt n + 1)"
proof (induction n rule: isqrt.induct)
  case (1 n)
  show ?case
  proof (cases "n < 2")
    case True
    then have "isqrt n = n" by (subst isqrt.simps) simp
    moreover from True have "n = 0 \<or> n = 1" by linarith
    ultimately show ?thesis by auto
  next
    case False
    define s where "s = isqrt (n div 4)"
    from "1.IH"[OF False] have lo: "s * s \<le> n div 4" and hi: "n div 4 < (s + 1) * (s + 1)"
      by (simp_all add: s_def)
    have a: "(2 * s) * (2 * s) \<le> n"
    proof -
      have "(2 * s) * (2 * s) = 4 * (s * s)" by simp
      also have "\<dots> \<le> 4 * (n div 4)" using lo by simp
      also have "\<dots> \<le> n" by simp
      finally show ?thesis .
    qed
    have b: "n < (2 * s + 2) * (2 * s + 2)"
    proof -
      from hi have "n div 4 + 1 \<le> (s + 1) * (s + 1)" by simp
      then have "4 * (n div 4) + 4 \<le> 4 * ((s + 1) * (s + 1))" by simp
      moreover have "n < 4 * (n div 4) + 4" by presburger
      moreover have "4 * ((s + 1) * (s + 1)) = (2 * s + 2) * (2 * s + 2)" by (simp add: algebra_simps)
      ultimately show ?thesis by linarith
    qed
    have val: "isqrt n = (if (2 * s + 1) * (2 * s + 1) \<le> n then 2 * s + 1 else 2 * s)"
      using False by (subst isqrt.simps) (simp add: Let_def s_def)
    show ?thesis
    proof (cases "(2 * s + 1) * (2 * s + 1) \<le> n")
      case True
      with val b show ?thesis by (simp add: algebra_simps)
    next
      case False
      with val a show ?thesis by (simp add: algebra_simps)
    qed
  qed
qed

lemma floor_sqrt_unique:
  fixes a b n :: nat
  assumes "a * a \<le> n" and "n < (a + 1) * (a + 1)" and "b * b \<le> n" and "n < (b + 1) * (b + 1)"
  shows "a = b"
proof (rule ccontr)
  assume "a \<noteq> b"
  then consider "a + 1 \<le> b" | "b + 1 \<le> a" by linarith
  then show False
  proof cases
    case 1
    then have "(a + 1) * (a + 1) \<le> b * b" by (intro mult_le_mono)
    with assms show False by linarith
  next
    case 2
    then have "(b + 1) * (b + 1) \<le> a * a" by (intro mult_le_mono)
    with assms show False by linarith
  qed
qed

lemma isqrt_eqI: "a * a \<le> n \<Longrightarrow> n < (a + 1) * (a + 1) \<Longrightarrow> isqrt n = a"
  using floor_sqrt_unique[of "isqrt n" n a] isqrt_floor[of n] by simp

lemma int_to_double_small:
  assumes "n < 2 ^ 53"
  shows "int_to_double n = Inr n"
proof -
  have "bit_length_nat n \<le> 53"
  proof (rule ccontr)
    assume "\<not> bit_length_nat n \<le> 53"
    then have big: "54 \<le> bit_length_nat n" by simp
    then have pos: "0 < n" by (cases "n = 0") (simp_all add: bit_length_nat_0)
    have "(2::nat) ^ 54 \<le> 2 ^ bit_length_nat n" using big by (intro power_increasing) simp_all
    with bit_length_nat_lower[OF pos] have "(2::nat) ^ 54 \<le> 2 * n" by linarith
    with assms show False by simp
  qed
  then have e: "bit_length_nat n - 53 = 0" by simp
  have "n < (2::nat) ^ 1024"
  proof -
    have "(2::nat) ^ 53 \<le> 2 ^ 1024" by (intro power_increasing) simp_all
    with assms show ?thesis by linarith
  qed
  then show ?thesis by (simp add: int_to_double_def e Let_def del: power_numeral)
qed

lemma div_round_up:
  fixes g m P :: nat
  assumes "g * P < m" and "m \<le> (g + 1) * P"
  shows "(m + P - 1) div P = g + 1"
proof (rule div_nat_eqI)
  from assms have P: "0 < P" by (cases "P = 0") simp_all
  show "P * (g + 1) \<le> m + P - 1" using assms(1) P by (simp add: algebra_simps)
  show "m + P - 1 < P * Suc (g + 1)" using assms(2) P by (simp add: algebra_simps)
qed

lemma double_sqrt_ceil_exact:
  assumes x1: "1 \<le> x" and x2: "x \<le> 2 ^ 52"
  shows "1 \<le> double_sqrt_ceil x \<and>
         (double_sqrt_ceil x - 1) * (double_sqrt_ceil x - 1) < x \<and>
         x \<le> double_sqrt_ceil x * double_sqrt_ceil x"
proof -
  define g where "g = isqrt x"
  from isqrt_floor[of x] have g_lo: "g * g \<le> x" and g_hi: "x < (g + 1) * (g + 1)"
    by (simp_all add: g_def)
  have g1: "1 \<le> g"
  proof (rule ccontr)
    assume "\<not> 1 \<le> g"
    then have "g = 0" by simp
    with g_hi x1 show False by simp
  qed
  have g26: "g \<le> 2 ^ 26"
  proof (rule ccontr)
    assume "\<not> g \<le> 2 ^ 26"
    then have "2 ^ 26 + 1 \<le> g" by simp
    then have "(2 ^ 26 + 1) * (2 ^ 26 + 1) \<le> g * g" by (intro mult_le_mono)
    with g_lo x2 show False by simp
  qed
  define b where "b = bit_length_nat g"
  define k where "k = b - 1"
  have b_up: "g < 2 ^ b" unfolding b_def by (rule bit_length_nat_upper)
  have b_lo: "2 ^ b \<le> 2 * g" unfolding b_def using g1 by (intro bit_length_nat_lower) simp
  have b1: "1 \<le> b" using g1 b_up by (cases "b = 0") simp_all
  have b27: "b \<le> 27"
  proof (rule ccontr)
    assume "\<not> b \<le> 27"
    then have "28 \<le> b" by simp
    then have "(2::nat) ^ 28 \<le> 2 ^ b" by (intro power_increasing) simp_all
    with b_lo g26 show False by simp
  qed
  have k52: "k < 52" using b27 by (simp add: k_def)
  define i where "i = 52 - k"
  define P :: nat where "P = 2 ^ i"
  have P1: "1 \<le> P" by (simp add: P_def)
  have P4: "4 ^ i = P * P" by (simp add: P_def power_mult_distrib[symmetric])
  define N where "N = x * 4 ^ i"
  have N: "N = x * (P * P)" by (simp add: N_def P4)
  define f where "f = isqrt N"
  from isqrt_floor[of N] have f_lo: "f * f \<le> N" and f_hi: "N < (f + 1) * (f + 1)"
    by (simp_all add: f_def)
  define m where "m = (if (2 * f + 1) * (2 * f + 1) < 4 * N then f + 1 else f)"
  have val: "double_sqrt_ceil x = (m + P - 1) div P"
    unfolding double_sqrt_ceil_def Let_def g_def[symmetric] b_def[symmetric] k_def[symmetric]
      i_def[symmetric] N_def[symmetric] f_def[symmetric] P_def[symmetric] m_def
    using x1 k52 by simp
  show ?thesis
  proof (cases "x = g * g")
    case True
    have "N = (g * P) * (g * P)" by (simp add: N True algebra_simps)
    then have "f = g * P" unfolding f_def by (intro isqrt_eqI) (simp_all add: algebra_simps)
    then have "4 * N = (2 * f) * (2 * f)" using \<open>N = (g * P) * (g * P)\<close> by simp
    then have "\<not> (2 * f + 1) * (2 * f + 1) < 4 * N" by (simp add: algebra_simps)
    then have "m = g * P" using \<open>f = g * P\<close> by (simp add: m_def)
    then have mg: "m = g * P" .
    have "(m + P - 1) div P = g"
    proof (rule div_nat_eqI)
      show "P * g \<le> m + P - 1" using P1 by (simp add: mg algebra_simps)
      show "m + P - 1 < P * Suc g" using P1 by (simp add: mg algebra_simps)
    qed
    then have "double_sqrt_ceil x = g" using val by simp
    moreover have "(g - 1) * (g - 1) < g * g" using g1 by (intro mult_strict_mono) simp_all
    ultimately show ?thesis using g1 True by simp
  next
    case False
    with g_lo have gx: "g * g + 1 \<le> x" by simp
    have f_ge: "g * P \<le> f"
    proof (rule ccontr)
      assume "\<not> g * P \<le> f"
      then have "f + 1 \<le> g * P" by simp
      then have "(f + 1) * (f + 1) \<le> (g * P) * (g * P)" by (intro mult_le_mono)
      also have "\<dots> = (g * g) * (P * P)" by (simp add: algebra_simps)
      also have "\<dots> \<le> x * (P * P)" using g_lo by (intro mult_le_mono) simp_all
      finally show False using f_hi N by simp
    qed
    have f_lt: "f < (g + 1) * P"
    proof (rule ccontr)
      assume "\<not> f < (g + 1) * P"
      then have "(g + 1) * P \<le> f" by simp
      then have "((g + 1) * P) * ((g + 1) * P) \<le> f * f" by (intro mult_le_mono)
      moreover have "x * (P * P) < ((g + 1) * (g + 1)) * (P * P)"
        using g_hi P1 by (intro mult_strict_right_mono) simp_all
      moreover have "((g + 1) * (g + 1)) * (P * P) = ((g + 1) * P) * ((g + 1) * P)"
        by (simp add: algebra_simps)
      ultimately show False using f_lo N by simp
    qed
    have m_le: "m \<le> (g + 1) * P" using f_lt by (simp add: m_def)
    have m_gt: "g * P < m"
    proof (cases "g * P < f")
      case True
      then show ?thesis by (simp add: m_def)
    next
      case False
      with f_ge have fg: "f = g * P" by simp
      have "b \<le> 26"
      proof (rule ccontr)
        assume "\<not> b \<le> 26"
        with b27 have "b = 27" by simp
        with b_lo have "2 ^ 26 \<le> g" by simp
        with g26 have "g = 2 ^ 26" by simp
        then have "g * g = 2 ^ 52" by simp
        with gx x2 show False by simp
      qed
      then have "b \<le> i" by (simp add: i_def k_def)
      then have "(2::nat) ^ b \<le> 2 ^ i" by (intro power_increasing) simp_all
      with b_up have "g < 2 ^ i" by linarith
      then have gP: "g + 1 \<le> P" by (simp add: P_def)
      have "(2 * f + 1) * (2 * f + 1) = 4 * (g * g) * (P * P) + 4 * g * P + 1"
        by (simp add: fg algebra_simps)
      also have "\<dots> < 4 * (g * g) * (P * P) + 4 * (P * P)"
      proof -
        have "4 * g * P + 4 * P \<le> 4 * (P * P)" using gP
          by (metis (no_types, lifting) add_mult_distrib mult.assoc mult.commute mult_le_mono2 mult_1)
        with P1 show ?thesis by simp
      qed
      also have "\<dots> = 4 * ((g * g + 1) * (P * P))" by (simp add: algebra_simps)
      also have "\<dots> \<le> 4 * (x * (P * P))" using gx by (intro mult_le_mono) simp_all
      finally have "(2 * f + 1) * (2 * f + 1) < 4 * N" by (simp add: N)
      then show ?thesis by (simp add: m_def fg)
    qed
    from div_round_up[OF m_gt m_le] val have "double_sqrt_ceil x = g + 1" by simp
    with gx g_hi show ?thesis by simp
  qed
qed

lemma ceiling_sqrt_nat:
  fixes c x :: nat
  assumes "1 \<le> c" and "(c - 1) * (c - 1) < x" and "x \<le> c * c"
  shows "\<lceil>sqrt (real x)\<rceil> = int c"
proof -
  have "sqrt (real x) \<le> real c"
  proof (rule real_le_lsqrt)
    from assms(3) have "real x \<le> real (c * c)" by (rule iffD2[OF of_nat_le_iff])
    then show "real x \<le> (real c)\<^sup>2" by (simp add: power2_eq_square)
  qed simp
  moreover have "real c - 1 < sqrt (real x)"
  proof -
    from assms(2) have "real ((c - 1) * (c - 1)) < real x" by (rule iffD2[OF of_nat_less_iff])
    then have "(real (c - 1))\<^sup>2 < real x" by (simp add: power2_eq_square)
    then have "real (c - 1) < sqrt (real x)" by (rule real_less_rsqrt)
    with assms(1) show ?thesis by (simp add: of_nat_diff)
  qed
  ultimately show ?thesis by (intro ceiling_unique) simp_all
qed

lemma ceil_sqrt_exact:
  assumes "1 \<le> pixels" and "pixels \<le> 2 ^ 52"
  shows "ceil_sqrt pixels = Inr \<lceil>sqrt (real_of_int pixels)\<rceil>"
proof -
  define x where "x = nat pixels"
  have x: "1 \<le> x" "x \<le> 2 ^ 52" using assms by (simp_all add: x_def nat_le_iff)
  have px: "real_of_int pixels = real x" using assms by (simp add: x_def)
  have "x < 2 ^ 53"
  proof -
    have "(2::nat) ^ 52 < 2 ^ 53" by (intro power_strict_increasing) simp_all
    with x show ?thesis by linarith
  qed
  then have conv: "int_to_double x = Inr x" by (rule int_to_double_small)
  from double_sqrt_ceil_exact[OF x] ceiling_sqrt_nat[of "double_sqrt_ceil x" x]
  have "\<lceil>sqrt (real x)\<rceil> = int (double_sqrt_ceil x)" by simp
  then show ?thesis by (simp add: ceil_sqrt_def x_def[symmetric] conv px)
qed

lemma bit_length_nat_numeral:
  "bit_length_nat (numeral w) = Suc (bit_length_nat (numeral w div 2))"
  by (rule bit_length_nat_pos) simp

lemma ceil_sqrt_0: "ceil_sqrt 0 = Inr 0"
  by (simp add: ceil_sqrt_def int_to_double_def double_sqrt_ceil_def bit_length_nat_0)

lemma ceil_sqrt_8: "ceil_sqrt 8 = Inr 3"
proof -
  have "\<lceil>sqrt (real (8::nat))\<rceil> = int 3" by (rule ceiling_sqrt_nat) simp_all
  with ceil_sqrt_exact[of 8] show ?thesis by simp
qed

lemma ceil_sqrt_43: "ceil_sqrt 43 = Inr 7"
proof -
  have "\<lceil>sqrt (real (43::nat))\<rceil> = int 7" by (rule ceiling_sqrt_nat) simp_all
  with ceil_sqrt_exact[of 43] show ?thesis by simp
qed

lemma ceil_sqrt_big: "ceil_sqrt 4503599627370497 = Inr 67108864"
proof -
  have conv: "int_to_double 4503599627370497 = Inr 4503599627370497"
    by (rule int_to_double_small) simp
  have g: "isqrt 4503599627370497 = 67108864" by (rule isqrt_eqI) simp_all
  have b: "bit_length_nat 67108864 = 27"
    by (simp add: bit_length_nat_numeral bit_length_nat_pos bit_length_nat_0)
  have f: "isqrt 20282409603651674927546878656512 = 4503599627370496"
    by (rule isqrt_eqI) simp_all
  have "double_sqrt_ceil 4503599627370497 = 67108864"
    unfolding double_sqrt_ceil_def g b by (simp add: f Let_def)
  with conv show ?thesis by (simp add: ceil_sqrt_def)
qed

lemma next_power_of_two:
  assumes "1 \<le> (m::int)"
  shows "push_bit (bit_length (m - 1)) (1::int) = 2 ^ bit_length (m - 1) \<and>
         m \<le> 2 ^ bit_length (m - 1) \<and>
         (\<forall>j. m \<le> 2 ^ j \<longrightarrow> (2::int) ^ bit_length (m - 1) \<le> 2 ^ j)"
proof -
  define n where "n = nat (m - 1)"
  define k where "k = bit_length (m - 1)"
  have k: "k = bit_length_nat n" using assms by (simp add: k_def bit_length_def n_def)
  have m: "m = int n + 1" using assms by (simp add: n_def)
  have "n < 2 ^ k" unfolding k by (rule bit_length_nat_upper)
  then have "int n < int (2 ^ k)" by (rule iffD2[OF of_nat_less_iff])
  then have nk: "int n < 2 ^ k" by simp
  have up: "m \<le> 2 ^ k" using m nk by linarith
  have least: "(2::int) ^ k \<le> 2 ^ j" if mj: "m \<le> 2 ^ j" for j
  proof (cases "n = 0")
    case True
    then have "k = 0" by (simp add: k bit_length_nat_0)
    then show ?thesis by simp
  next
    case False
    then have "2 ^ k \<le> 2 * n" unfolding k by (intro bit_length_nat_lower) simp
    then have "int (2 ^ k) \<le> int (2 * n)" by (rule iffD2[OF of_nat_le_iff])
    then have a: "(2::int) ^ k \<le> 2 * int n" by simp
    have "(2::int) ^ k < 2 * 2 ^ j" using a m mj by linarith
    then have "(2::int) ^ k < 2 ^ Suc j" by simp
    then have "k < Suc j" by (rule power_less_imp_less_exp[rotated]) simp
    then have "k \<le> j" by simp
    then show ?thesis by (simp add: power_increasing)
  qed
  show ?thesis using up least by (simp add: push_bit_eq_mult k_def)
qed

lemma Max_insert_max:
  assumes "finite A"
  shows "Max (insert (max a b) A) = Max (insert b (insert a A))"
proof (cases "A = {}")
  case True
  then show ?thesis by (simp add: max.commute)
next
  case False
  with assms show ?thesis by (simp add: max.assoc max.commute max.left_commute)
qed

lemma fold_measure:
  "fold (\<lambda>f (height, width, pixels).
           (max (p_height (s ! f)) height, max (p_width (s ! f)) width,
            pixels + p_height (s ! f) * p_width (s ! f))) fs (h, w, p) =
   (Max (insert h ((\<lambda>f. p_height (s ! f)) ` set fs)),
    Max (insert w ((\<lambda>f. p_width (s ! f)) ` set fs)),
    p + total_area s fs)"
proof (induction fs arbitrary: h w p)
  case Nil
  then show ?case by (simp add: total_area_def)
next
  case (Cons f fs)
  show ?case
    by (simp add: Cons.IH Max_insert_max total_area_def insert_commute add.assoc)
qed

lemma measure_frames_eq:
  "measure_frames s textures =
   (Max (insert 0 ((\<lambda>f. p_height (s ! f)) ` set (all_frames textures))),
    Max (insert 0 ((\<lambda>f. p_width (s ! f)) ` set (all_frames textures))),
    total_area s (all_frames textures))"
proof -
  have "fold (\<lambda>t acc. fold g (t_frames t) acc) textures acc =
        fold g (concat (map t_frames textures)) acc" for g :: "addr \<Rightarrow> int \<times> int \<times> int \<Rightarrow> int \<times> int \<times> int" and acc
    by (induction textures arbitrary: acc) simp_all
  then show ?thesis
    unfolding measure_frames_def all_frames_def by (simp add: fold_measure)
qed

lemma Max_insert_0:
  assumes "fs \<noteq> []" and "\<forall>f \<in> set fs. 0 < g f"
  shows "Max (insert (0::int) (g ` set fs)) = Max (g ` set fs)"
proof -
  from assms(1) obtain f where f: "f \<in> set fs" by (cases fs) auto
  have ne: "g ` set fs \<noteq> {}" using f by auto
  have "g f \<le> Max (g ` set fs)" using f by simp
  moreover have "0 < g f" using assms(2) f by simp
  ultimately have "0 \<le> Max (g ` set fs)" by linarith
  then show ?thesis using ne by (simp add: max_def)
qed

lemma total_area_pos:
  assumes "fs \<noteq> []" and "\<forall>f \<in> set fs. 0 < p_width (s ! f) \<and> 0 < p_height (s ! f)"
  shows "1 \<le> total_area s fs"
  using assms
proof (induction fs)
  case Nil
  then show ?case by simp
next
  case (Cons f fs)
  from Cons.prems(2) have "0 < p_height (s ! f) * p_width (s ! f)" by simp
  moreover have "0 \<le> total_area s fs"
    unfolding total_area_def using Cons.prems(2) by (intro sum_list_nonneg) auto
  ultimately show ?case by (simp add: total_area_def)
qed

text \<open>
  Claim C7, as amended. For an input with at least one frame, all of positive width and
  height, and a total pixel area of at most \<open>2 ^ 52\<close>, the initial side is the maximum of
  the largest frame height, the largest frame width and the smallest power of two that
  is at least the ceiling of the square root of the total pixel area; and
  \<open>1 << (n - 1).bit_length()\<close> is that power of two. Up to that area the ceiling of the
  double square root is the exact ceiling.
\<close>

theorem initial_size_formula:
  fixes s :: "'a store"
  assumes "all_frames textures \<noteq> []"
    and "\<forall>f \<in> set (all_frames textures). 0 < p_width (s ! f) \<and> 0 < p_height (s ! f)"
    and "total_area s (all_frames textures) \<le> 2 ^ 52"
  shows "\<exists>k. initial_size s textures =
            Inr (max (Max ((\<lambda>f. p_height (s ! f)) ` set (all_frames textures)))
                   (max (Max ((\<lambda>f. p_width (s ! f)) ` set (all_frames textures))) (2 ^ k))) \<and>
          push_bit
            (bit_length (\<lceil>sqrt (real_of_int (total_area s (all_frames textures)))\<rceil> - 1))
            (1::int) = 2 ^ k \<and>
          \<lceil>sqrt (real_of_int (total_area s (all_frames textures)))\<rceil> \<le> 2 ^ k \<and>
          (\<forall>j. \<lceil>sqrt (real_of_int (total_area s (all_frames textures)))\<rceil> \<le> 2 ^ j \<longrightarrow>
               (2::int) ^ k \<le> 2 ^ j)"
proof -
  define A where "A = total_area s (all_frames textures)"
  define m where "m = \<lceil>sqrt (real_of_int A)\<rceil>"
  have A: "1 \<le> A" unfolding A_def using total_area_pos[OF assms(1,2)] .
  have A52: "A \<le> 2 ^ 52" unfolding A_def using assms(3) .
  have cs: "ceil_sqrt A = Inr m" using ceil_sqrt_exact[OF A A52] by (simp add: m_def)
  from A have "1 \<le> sqrt (real_of_int A)" by simp
  then have m: "1 \<le> m" unfolding m_def by linarith
  note np = next_power_of_two[OF m]
  have h: "Max (insert 0 ((\<lambda>f. p_height (s ! f)) ` set (all_frames textures))) =
           Max ((\<lambda>f. p_height (s ! f)) ` set (all_frames textures))"
    using assms(1,2) by (intro Max_insert_0) simp_all
  have w: "Max (insert 0 ((\<lambda>f. p_width (s ! f)) ` set (all_frames textures))) =
           Max ((\<lambda>f. p_width (s ! f)) ` set (all_frames textures))"
    using assms(1,2) by (intro Max_insert_0) simp_all
  have "initial_size s textures =
      Inr (max (Max ((\<lambda>f. p_height (s ! f)) ` set (all_frames textures)))
        (max (Max ((\<lambda>f. p_width (s ! f)) ` set (all_frames textures)))
           (2 ^ bit_length (m - 1))))"
    unfolding initial_size_def measure_frames_eq using np
    by (simp add: h w cs A_def[symmetric])
  with np show ?thesis unfolding m_def A_def by blast
qed

theorem initial_size_formula_witness:
  "initial_size [Packable_init 5 5, Packable_init 3 4, Packable_init 6 1]
     [Texture_init ''A'' [0], Texture_init ''B'' [1], Texture_init ''C'' [2]] = Inr 8 \<and>
   (\<exists>k. (8::int) = max 5 (max 6 (2 ^ k)) \<and> \<lceil>sqrt (real_of_int 43)\<rceil> \<le> (2::int) ^ k)"
proof -
  let ?s = "[Packable_init 5 5, Packable_init 3 4, Packable_init 6 1]"
  let ?ts = "[Texture_init ''A'' [0], Texture_init ''B'' [1], Texture_init ''C'' [2]]"
  have fs: "all_frames ?ts = [0, 1, 2]" by (simp add: all_frames_def Texture_init_def)
  have ne: "all_frames ?ts \<noteq> []" by (simp add: all_frames_def Texture_init_def)
  have pos: "\<forall>f \<in> set (all_frames ?ts). 0 < p_width (?s ! f) \<and> 0 < p_height (?s ! f)"
    unfolding fs by (simp add: Packable_init_def)
  have area: "total_area ?s (all_frames ?ts) = 43"
    unfolding fs by (simp add: total_area_def Packable_init_def)
  have small: "total_area ?s (all_frames ?ts) \<le> 2 ^ 52" unfolding area by simp
  have bl: "bit_length 6 = 3" by (simp add: bit_length_def bit_length_nat.simps)
  have val: "initial_size ?s ?ts = Inr 8"
    by (simp add: initial_size_def measure_frames_def Texture_init_def Packable_init_def
        ceil_sqrt_43 bl)
  from initial_size_formula[OF ne pos small] obtain k where
    "initial_size ?s ?ts =
       Inr (max (Max ((\<lambda>f. p_height (?s ! f)) ` set (all_frames ?ts)))
         (max (Max ((\<lambda>f. p_width (?s ! f)) ` set (all_frames ?ts))) (2 ^ k)))"
    and "\<lceil>sqrt (real_of_int (total_area ?s (all_frames ?ts)))\<rceil> \<le> 2 ^ k"
    by blast
  then have "(8::int) = max 5 (max 6 (2 ^ k)) \<and> \<lceil>sqrt (real_of_int 43)\<rceil> \<le> (2::int) ^ k"
    unfolding val area unfolding fs by (simp add: Packable_init_def)
  with val show ?thesis by blast
qed

lemma all_frames_singletons:
  "all_frames (map (\<lambda>i. Texture_init (nm i) [i]) xs) = xs"
  by (induction xs) (simp_all add: all_frames_def Texture_init_def)

lemma total_area_all:
  "total_area s [0..<length s] = (\<Sum>f\<leftarrow>s. p_height f * p_width f)"
proof -
  have "map (\<lambda>f. p_height (s ! f) * p_width (s ! f)) [0..<length s] =
        map (\<lambda>f. p_height f * p_width f) (map ((!) s) [0..<length s])" by simp
  also have "\<dots> = map (\<lambda>f. p_height f * p_width f) s" by (simp only: map_nth)
  finally show ?thesis by (simp add: total_area_def)
qed

lemma many_frames_nth:
  "f < 67108864 \<Longrightarrow> many_frames ! f = Packable_init 8192 8192"
  "many_frames ! 67108864 = Packable_init 1 1"
  by (simp_all add: many_frames_def nth_append)

lemma many_measure: "measure_frames many_frames many_textures = (8192, 8192, 4503599627370497)"
proof -
  have len: "length many_frames = 67108865" by (simp add: many_frames_def)
  have fs: "all_frames many_textures = [0..<length many_frames]"
    unfolding many_textures_def len by (rule all_frames_singletons)
  have dims: "p_height (many_frames ! f) \<le> 8192 \<and> p_width (many_frames ! f) \<le> 8192"
    if "f < 67108865" for f
  proof (cases "f < 67108864")
    case True
    then show ?thesis by (simp add: many_frames_nth Packable_init_def)
  next
    case False
    with that have "f = 67108864" by simp
    then show ?thesis by (simp add: many_frames_nth Packable_init_def)
  qed
  have first: "p_height (many_frames ! 0) = 8192" "p_width (many_frames ! 0) = 8192"
    by (simp_all add: many_frames_nth Packable_init_def)
  have h: "Max (insert 0 ((\<lambda>f. p_height (many_frames ! f)) ` set [0..<length many_frames])) = 8192"
  proof (rule Max_eqI)
    show "finite (insert 0 ((\<lambda>f. p_height (many_frames ! f)) ` set [0..<length many_frames]))"
      by simp
    show "8192 \<in> insert 0 ((\<lambda>f. p_height (many_frames ! f)) ` set [0..<length many_frames])"
      using first(1) len by (auto intro!: image_eqI[of _ _ 0])
    fix y assume "y \<in> insert 0 ((\<lambda>f. p_height (many_frames ! f)) ` set [0..<length many_frames])"
    then show "y \<le> 8192" using dims len by auto
  qed
  have w: "Max (insert 0 ((\<lambda>f. p_width (many_frames ! f)) ` set [0..<length many_frames])) = 8192"
  proof (rule Max_eqI)
    show "finite (insert 0 ((\<lambda>f. p_width (many_frames ! f)) ` set [0..<length many_frames]))"
      by simp
    show "8192 \<in> insert 0 ((\<lambda>f. p_width (many_frames ! f)) ` set [0..<length many_frames])"
      using first(2) len by (auto intro!: image_eqI[of _ _ 0])
    fix y assume "y \<in> insert 0 ((\<lambda>f. p_width (many_frames ! f)) ` set [0..<length many_frames])"
    then show "y \<le> 8192" using dims len by auto
  qed
  have a: "total_area many_frames [0..<length many_frames] = 4503599627370497"
    unfolding total_area_all by (simp add: many_frames_def Packable_init_def sum_list_replicate)
  show ?thesis unfolding measure_frames_eq fs h w a by simp
qed

text \<open>
  The statement of C7 in the specification fails on the large input. Its total area is
  \<open>2 ^ 52 + 1\<close>; the exact root has the ceiling \<open>2 ^ 26 + 1\<close>, so the formula gives
  \<open>2 ^ 27\<close>; the double root is \<open>2 ^ 26\<close>, and the initial size is \<open>2 ^ 26\<close>.
\<close>

theorem initial_size_counterexample:
  "measure_frames many_frames many_textures = (8192, 8192, 4503599627370497) \<and>
   initial_size many_frames many_textures = Inr 67108864 \<and>
   \<lceil>sqrt (real_of_int 4503599627370497)\<rceil> = 67108865 \<and>
   (67108865::int) \<le> 2 ^ 27 \<and> \<not> (67108865::int) \<le> 2 ^ 26 \<and>
   max 8192 (max 8192 (2 ^ 27)) \<noteq> (67108864::int)"
proof -
  have bl: "bit_length 67108863 = 26"
    by (simp add: bit_length_def bit_length_nat_numeral bit_length_nat_pos bit_length_nat_0)
  have sz: "initial_size many_frames many_textures = Inr 67108864"
    unfolding initial_size_def many_measure
    by (simp add: ceil_sqrt_big bl push_bit_eq_mult)
  have "\<lceil>sqrt (real (4503599627370497::nat))\<rceil> = int 67108865"
    by (rule ceiling_sqrt_nat) simp_all
  then have root: "\<lceil>sqrt (real_of_int 4503599627370497)\<rceil> = 67108865" by simp
  from many_measure sz root show ?thesis by simp
qed

text \<open>
  Claim C10. On the empty mapping \<^const>\<open>create_atlas\<close> returns: the total area is 0, the
  power-of-two term is \<open>1 << (-1).bit_length() = 2\<close>, the size is 2, the first attempt
  succeeds with no texture, and the result is the 16 zero bytes of a blank 2 by 2 RGBA
  image, the empty table, width 2 and height 2.
\<close>

theorem create_atlas_empty:
  "create_atlas decode ([] :: ('k \<times> string) list) =
     Some (Inr ([0, 0, 0, 0, 0, 0, 0, 0, 0, 0, 0, 0, 0, 0, 0, 0], Map.empty, 2, 2)) \<and>
   measure_frames ([] :: Frame list) [] = (0, 0, 0) \<and>
   ceil_sqrt 0 = Inr 0 \<and>
   push_bit (bit_length (0 - 1)) (1::int) = 2 \<and>
   bit_length (- 1) = 1 \<and>
   initial_size ([] :: Frame list) [] = Inr 2 \<and>
   pack_loop [] 2 ([] :: Frame list) = Some (Inr (TextureAtlas_init 2 2, []))"
proof -
  note cs = ceil_sqrt_0
  have bl: "bit_length (- 1) = 1" by (simp add: bit_length_def bit_length_nat.simps)
  have pb: "push_bit (bit_length (0 - 1)) (1::int) = 2" by (simp add: bl)
  have mf: "measure_frames ([] :: Frame list) [] = (0, 0, 0)" by (simp add: measure_frames_def)
  have sz: "initial_size ([] :: Frame list) [] = Inr 2" by (simp add: initial_size_def mf cs bl)
  have loop: "pack_loop [] 2 ([] :: Frame list) = Some (Inr (TextureAtlas_init 2 2, []))"
    by (subst pack_loop.simps) simp
  have b: "build decode ([] :: ('k \<times> string) list) = Some (Inr (TextureAtlas_init 2 2, []))"
    by (simp add: build_def sort_textures_def sz loop)
  have up: "[0..<2] = [0, Suc 0]" by (simp add: upt_rec)
  have buf: "ravel (generate (TextureAtlas_init 2 2) []) =
      [0, 0, 0, 0, 0, 0, 0, 0, 0, 0, 0, 0, 0, 0, 0, 0]"
    by (simp add: generate_def TextureAtlas_init_def PackRegion_init_def Image_new_def
        ravel_def up)
  have td: "to_dict (TextureAtlas_init 2 2) ([] :: Frame list) = Inr Map.empty"
    by (simp add: to_dict_def TextureAtlas_init_def)
  have wh: "r_width (a_region (TextureAtlas_init 2 2)) = 2"
    "r_height (a_region (TextureAtlas_init 2 2)) = 2"
    by (simp_all add: TextureAtlas_init_def PackRegion_init_def)
  have "create_atlas decode ([] :: ('k \<times> string) list) =
     Some (Inr ([0, 0, 0, 0, 0, 0, 0, 0, 0, 0, 0, 0, 0, 0, 0, 0], Map.empty, 2, 2))"
    by (simp add: create_atlas_def b td buf wh)
  with mf cs pb bl sz loop show ?thesis by simp
qed

section \<open>The retry loop ends\<close>

lemma same_dims_refl: "same_dims s s"
  by (simp add: same_dims_def)

lemma same_dims_trans: "same_dims s s1 \<Longrightarrow> same_dims s1 s2 \<Longrightarrow> same_dims s s2"
  by (simp add: same_dims_def)

lemma pack_same_dims:
  assumes "pack r a s = (ok, r', s')"
  shows "same_dims s s'"
proof (cases ok)
  case True
  with pack_effect[OF assms] obtain px py where "s' = s[a := (s ! a)\<lparr>p_x := px, p_y := py\<rparr>]"
    by auto
  then show ?thesis by (simp add: same_dims_def upd_dims)
next
  case False
  with pack_effect[OF assms] show ?thesis by (simp add: same_dims_def)
qed

lemma total_width_same: "same_dims s s' \<Longrightarrow> total_width s' fs = total_width s fs"
  by (simp add: same_dims_def total_width_def)

lemma pack_rightmost_fits:
  "p_width (s ! a) \<le> r_width (rightmost r) \<Longrightarrow> p_height (s ! a) \<le> r_height (rightmost r) \<Longrightarrow>
   fst (pack r a s)"
proof (induction r)
  case (Empty rx ry rw rh)
  then show ?case by (simp add: pack_Empty)
next
  case (Occupied rx ry rw rh p s1 s2)
  then have "fst (pack s2 a s)" by simp
  then show ?case by (simp add: pack_Occupied)
qed

lemma pack_rightmost_after:
  "pack r a s = (ok, r', s') \<Longrightarrow> 0 \<le> p_width (s ! a) \<Longrightarrow>
   r_height (rightmost r') = r_height (rightmost r) \<and>
   r_width (rightmost r) - p_width (s ! a) \<le> r_width (rightmost r')"
proof (induction r arbitrary: ok r' s')
  case (Empty rx ry rw rh)
  then show ?case by (auto simp: pack_Empty split: if_splits)
next
  case (Occupied rx ry rw rh p s1 s2)
  obtain ok1 s1' t1 where p1: "pack s1 a s = (ok1, s1', t1)" by (cases "pack s1 a s")
  obtain ok2 s2' t2 where p2: "pack s2 a s = (ok2, s2', t2)" by (cases "pack s2 a s")
  note res = pack_Occupied_cases[OF p1 p2, of rx ry rw rh p]
  show ?case
  proof (cases ok1)
    case True
    with res Occupied.prems have "r' = Occupied rx ry rw rh p s1' s2" by simp
    with Occupied.prems(2) show ?thesis by simp
  next
    case False
    with res Occupied.prems have "r' = Occupied rx ry rw rh p s1 s2'" by simp
    with Occupied.IH(2)[OF p2 Occupied.prems(2)] show ?thesis by simp
  qed
qed

lemma pack_frames_big:
  "total_width s fs \<le> r_width (rightmost r) \<Longrightarrow>
   \<forall>f \<in> set fs. 0 \<le> p_width (s ! f) \<and> p_height (s ! f) \<le> r_height (rightmost r) \<Longrightarrow>
   pack_frames r fs s = (e, r', s') \<Longrightarrow>
     e = None \<and> same_dims s s' \<and> r_height (rightmost r') = r_height (rightmost r) \<and>
     r_width (rightmost r) - total_width s fs \<le> r_width (rightmost r')"
proof (induction fs arbitrary: r s)
  case Nil
  then show ?case by (simp add: same_dims_refl total_width_def)
next
  case (Cons f fs)
  obtain ok r1 s1 where p: "pack r f s = (ok, r1, s1)" by (cases "pack r f s")
  from Cons.prems(2) have wf: "0 \<le> p_width (s ! f)" and hf: "p_height (s ! f) \<le> r_height (rightmost r)"
    by simp_all
  have rest_nonneg: "0 \<le> total_width s fs"
    unfolding total_width_def using Cons.prems(2) by (intro sum_list_nonneg) auto
  have tw: "total_width s (f # fs) = p_width (s ! f) + total_width s fs"
    by (simp add: total_width_def)
  from Cons.prems(1) tw rest_nonneg have "p_width (s ! f) \<le> r_width (rightmost r)" by linarith
  from pack_rightmost_fits[OF this hf] p have ok: ok by simp
  from pack_rightmost_after[OF p wf]
  have h1: "r_height (rightmost r1) = r_height (rightmost r)"
    and w1: "r_width (rightmost r) - p_width (s ! f) \<le> r_width (rightmost r1)" by simp_all
  have sd: "same_dims s s1" using pack_same_dims[OF p] .
  have tws: "total_width s1 fs = total_width s fs" using total_width_same[OF sd] .
  from p ok Cons.prems(3) have rest: "pack_frames r1 fs s1 = (e, r', s')" by simp
  have a1: "total_width s1 fs \<le> r_width (rightmost r1)"
    using Cons.prems(1) tw w1 tws by linarith
  have a2: "\<forall>f \<in> set fs. 0 \<le> p_width (s1 ! f) \<and> p_height (s1 ! f) \<le> r_height (rightmost r1)"
    using Cons.prems(2) sd h1 by (simp add: same_dims_def)
  from Cons.IH[OF a1 a2 rest] have "e = None" and sd2: "same_dims s1 s'"
    and h2: "r_height (rightmost r') = r_height (rightmost r1)"
    and w2: "r_width (rightmost r1) - total_width s1 fs \<le> r_width (rightmost r')" by simp_all
  moreover have "same_dims s s'" using same_dims_trans[OF sd sd2] .
  moreover have "r_width (rightmost r) - total_width s (f # fs) \<le> r_width (rightmost r')"
    using w1 w2 tw tws by linarith
  ultimately show ?case using h1 by simp
qed

lemma pack_frames_same_dims: "pack_frames r fs s = (e, r', s') \<Longrightarrow> same_dims s s'"
proof (induction fs arbitrary: r s)
  case Nil
  then show ?case by (simp add: same_dims_refl)
next
  case (Cons f fs)
  obtain ok r1 s1 where p: "pack r f s = (ok, r1, s1)" by (cases "pack r f s")
  show ?case
  proof (cases ok)
    case True
    with p Cons.prems have "pack_frames r1 fs s1 = (e, r', s')" by simp
    from same_dims_trans[OF pack_same_dims[OF p] Cons.IH[OF this]] show ?thesis .
  next
    case False
    with p Cons.prems have "s' = s1" by simp
    with pack_same_dims[OF p] show ?thesis by simp
  qed
qed

lemma pack_textures_same_dims:
  "pack_textures atlas textures s = (e, atlas', s') \<Longrightarrow>
   same_dims s s' \<and> (e = None \<or> e = Some AtlasTooSmall)"
proof (induction textures arbitrary: atlas s)
  case Nil
  then show ?case by (simp add: same_dims_refl)
next
  case (Cons t ts)
  obtain e1 r1 s1 where p: "pack_frames (a_region atlas) (t_frames t) s = (e1, r1, s1)"
    by (cases "pack_frames (a_region atlas) (t_frames t) s")
  then have tp: "TextureAtlas_pack atlas t s =
      (e1, atlas\<lparr>a_textures := a_textures atlas @ [t], a_region := r1\<rparr>, s1)"
    by (simp add: TextureAtlas_pack_def)
  have sd: "same_dims s s1" using pack_frames_same_dims[OF p] .
  show ?case
  proof (cases e1)
    case None
    with tp Cons.prems have "pack_textures (atlas\<lparr>a_textures := a_textures atlas @ [t], a_region := r1\<rparr>) ts s1 = (e, atlas', s')"
      by simp
    from Cons.IH[OF this] sd show ?thesis by (auto intro: same_dims_trans)
  next
    case (Some err)
    from pack_frames_result[OF p] Some have "err = AtlasTooSmall" by simp
    with Some tp Cons.prems sd show ?thesis by simp
  qed
qed

lemma pack_textures_big:
  "total_width s (all_frames textures) \<le> r_width (rightmost (a_region atlas)) \<Longrightarrow>
   \<forall>f \<in> set (all_frames textures).
      0 \<le> p_width (s ! f) \<and> p_height (s ! f) \<le> r_height (rightmost (a_region atlas)) \<Longrightarrow>
   pack_textures atlas textures s = (e, atlas', s') \<Longrightarrow> e = None"
proof (induction textures arbitrary: atlas s)
  case Nil
  then show ?case by simp
next
  case (Cons t ts)
  obtain e1 r1 s1 where p: "pack_frames (a_region atlas) (t_frames t) s = (e1, r1, s1)"
    by (cases "pack_frames (a_region atlas) (t_frames t) s")
  then have tp: "TextureAtlas_pack atlas t s =
      (e1, atlas\<lparr>a_textures := a_textures atlas @ [t], a_region := r1\<rparr>, s1)"
    by (simp add: TextureAtlas_pack_def)
  have split: "total_width s (all_frames (t # ts)) =
      total_width s (t_frames t) + total_width s (all_frames ts)"
    by (simp add: total_width_def all_frames_def)
  have nn1: "0 \<le> total_width s (t_frames t)"
    unfolding total_width_def using Cons.prems(2)
    by (intro sum_list_nonneg) (auto simp: all_frames_def)
  have nn2: "0 \<le> total_width s (all_frames ts)"
    unfolding total_width_def using Cons.prems(2)
    by (intro sum_list_nonneg) (auto simp: all_frames_def)
  have a1: "total_width s (t_frames t) \<le> r_width (rightmost (a_region atlas))"
    using Cons.prems(1) split nn2 by linarith
  have a2: "\<forall>f \<in> set (t_frames t).
      0 \<le> p_width (s ! f) \<and> p_height (s ! f) \<le> r_height (rightmost (a_region atlas))"
    using Cons.prems(2) by (simp add: all_frames_def)
  from pack_frames_big[OF a1 a2 p] have e1: "e1 = None" and sd: "same_dims s s1"
    and h1: "r_height (rightmost r1) = r_height (rightmost (a_region atlas))"
    and w1: "r_width (rightmost (a_region atlas)) - total_width s (t_frames t)
               \<le> r_width (rightmost r1)" by simp_all
  let ?a1 = "atlas\<lparr>a_textures := a_textures atlas @ [t], a_region := r1\<rparr>"
  from tp e1 Cons.prems(3) have rest: "pack_textures ?a1 ts s1 = (e, atlas', s')" by simp
  have b1: "total_width s1 (all_frames ts) \<le> r_width (rightmost (a_region ?a1))"
    using Cons.prems(1) split w1 total_width_same[OF sd, of "all_frames ts"] by simp
  have b2: "\<forall>f \<in> set (all_frames ts).
      0 \<le> p_width (s1 ! f) \<and> p_height (s1 ! f) \<le> r_height (rightmost (a_region ?a1))"
    using Cons.prems(2) sd h1 by (simp add: same_dims_def all_frames_def)
  from Cons.IH[OF b1 b2 rest] show ?case .
qed

lemma size_bound_same: "same_dims s s' \<Longrightarrow> size_bound s' fs = size_bound s fs"
  by (simp add: same_dims_def size_bound_def total_width_def)

lemma member_le_sum_list_int:
  "\<forall>x \<in> set xs. (0::int) \<le> x \<Longrightarrow> y \<in> set xs \<Longrightarrow> y \<le> sum_list xs"
proof (induction xs)
  case Nil
  then show ?case by simp
next
  case (Cons x xs)
  have "0 \<le> sum_list xs" using Cons.prems(1) by (intro sum_list_nonneg) simp
  with Cons show ?case by (cases "y = x") auto
qed

lemma big_enough:
  assumes "size_bound s (all_frames textures) \<le> sz"
    and "\<forall>f \<in> set (all_frames textures). 0 \<le> p_width (s ! f)"
    and "pack_textures (TextureAtlas_init sz sz) textures s = (e, atlas, s')"
  shows "e = None"
proof -
  let ?fs = "all_frames textures"
  let ?hs = "map (\<lambda>f. max 0 (p_height (s ! f))) ?fs"
  have hs_nonneg: "\<forall>x \<in> set ?hs. 0 \<le> x" by auto
  then have "0 \<le> sum_list ?hs" by (intro sum_list_nonneg) blast
  moreover have "0 \<le> total_width s ?fs"
    unfolding total_width_def using assms(2) by (intro sum_list_nonneg) auto
  ultimately have w: "total_width s ?fs \<le> sz" and hsum: "sum_list ?hs \<le> sz"
    using assms(1) by (simp_all add: size_bound_def)
  have h: "p_height (s ! f) \<le> sz" if "f \<in> set ?fs" for f
  proof -
    from that have "max 0 (p_height (s ! f)) \<in> set ?hs" by auto
    from member_le_sum_list_int[OF hs_nonneg this] hsum show ?thesis by linarith
  qed
  have root: "rightmost (a_region (TextureAtlas_init sz sz)) = Empty 0 0 sz sz"
    by (simp add: TextureAtlas_init_def PackRegion_init_def)
  show ?thesis
    by (rule pack_textures_big[OF _ _ assms(3)]) (use w h assms(2) in \<open>simp_all add: root\<close>)
qed

lemma pack_loop_terminates:
  fixes s :: "'a store"
  assumes "1 \<le> sz" and "\<forall>f \<in> set (all_frames textures). 0 \<le> p_width (s ! f)"
  shows "\<exists>k atlas s1 s'. pack_loop textures sz s = Some (Inr (atlas, s')) \<and> same_dims s s1 \<and>
           pack_textures (TextureAtlas_init (sz * 2 ^ k) (sz * 2 ^ k)) textures s1 =
             (None, atlas, s')"
  using assms
proof (induction "nat (size_bound s (all_frames textures) - sz)" arbitrary: sz s rule: less_induct)
  case less
  obtain e atlas s' where run: "pack_textures (TextureAtlas_init sz sz) textures s = (e, atlas, s')"
    by (cases "pack_textures (TextureAtlas_init sz sz) textures s")
  show ?case
  proof (cases e)
    case None
    with run have "pack_loop textures sz s = Some (Inr (atlas, s'))"
      by (subst pack_loop.simps) simp
    moreover have "pack_textures (TextureAtlas_init (sz * 2 ^ 0) (sz * 2 ^ 0)) textures s =
        (None, atlas, s')" using run None by simp
    ultimately show ?thesis using same_dims_refl by blast
  next
    case (Some err)
    with pack_textures_same_dims[OF run] have err: "err = AtlasTooSmall" and sd: "same_dims s s'"
      by simp_all
    have small: "sz < size_bound s (all_frames textures)"
    proof (rule ccontr)
      assume "\<not> sz < size_bound s (all_frames textures)"
      then have "size_bound s (all_frames textures) \<le> sz" by simp
      from big_enough[OF this less.prems(2) run] Some show False by simp
    qed
    have unfold: "pack_loop textures sz s = pack_loop textures (sz * 2) s'"
      using run Some err by (subst pack_loop.simps) simp
    have m: "nat (size_bound s' (all_frames textures) - sz * 2) <
             nat (size_bound s (all_frames textures) - sz)"
      using small less.prems(1) size_bound_same[OF sd, of "all_frames textures"] by simp
    have p1: "1 \<le> sz * 2" using less.prems(1) by simp
    have p2: "\<forall>f \<in> set (all_frames textures). 0 \<le> p_width (s' ! f)"
      using less.prems(2) sd by (simp add: same_dims_def)
    from less.hyps[OF m p1 p2] obtain k atlas2 s1 s2 where
      res: "pack_loop textures (sz * 2) s' = Some (Inr (atlas2, s2))" and sd2: "same_dims s' s1"
      and fin: "pack_textures (TextureAtlas_init (sz * 2 * 2 ^ k) (sz * 2 * 2 ^ k)) textures s1 =
             (None, atlas2, s2)" by blast
    have "sz * 2 * 2 ^ k = sz * 2 ^ Suc k" by simp
    with fin have "pack_textures (TextureAtlas_init (sz * 2 ^ Suc k) (sz * 2 ^ Suc k)) textures s1 =
             (None, atlas2, s2)" by simp
    moreover have "same_dims s s1" using same_dims_trans[OF sd sd2] .
    moreover have "pack_loop textures sz s = Some (Inr (atlas2, s2))" using unfold res by simp
    ultimately show ?thesis by blast
  qed
qed

section \<open>create_atlas\<close>

lemma Frame_init_Some:
  "decode p = Some img \<Longrightarrow>
   \<exists>f. Frame_init decode p = Inr f \<and> p_x f = 0 \<and> p_y f = 0 \<and>
       p_width f = int (i_width img) \<and> p_height f = int (i_height img)"
  by (simp add: Frame_init_def Packable_init_def Packable.defs)

lemma load_textures_decodes:
  "load_textures decode paths s ts = Inr r \<Longrightarrow> \<forall>p \<in> set paths. decode p \<noteq> None"
proof (induction paths arbitrary: s ts)
  case Nil
  then show ?case by simp
next
  case (Cons p paths)
  from Cons.prems obtain f where f: "Frame_init decode p = Inr f"
    and rest: "load_textures decode paths (s @ [f]) (ts @ [Texture_init p [length s]]) = Inr r"
    by (auto split: sum.splits)
  from f have "decode p \<noteq> None" by (auto simp: Frame_init_def split: option.splits)
  with Cons.IH[OF rest] show ?case by simp
qed

lemma load_textures_ok:
  "\<forall>p \<in> set paths. decode p \<noteq> None \<Longrightarrow>
   \<exists>fs new. load_textures decode paths s ts = Inr (s @ fs, ts @ new) \<and>
      length fs = length paths \<and> length new = length paths \<and>
      (\<forall>i < length paths. new ! i = Texture_init (paths ! i) [length s + i]) \<and>
      (\<forall>f \<in> set fs. 0 \<le> p_width f \<and> 0 \<le> p_height f)"
proof (induction paths arbitrary: s ts)
  case Nil
  then show ?case by simp
next
  case (Cons p paths)
  from Cons.prems obtain img where img: "decode p = Some img" by auto
  from Frame_init_Some[of decode p img, OF img] obtain f where f: "Frame_init decode p = Inr f"
    and nn: "0 \<le> p_width f \<and> 0 \<le> p_height f" by auto
  from Cons.prems have "\<forall>q \<in> set paths. decode q \<noteq> None" by simp
  from Cons.IH[OF this, of "s @ [f]" "ts @ [Texture_init p [length s]]"]
  obtain fs new where
    ld: "load_textures decode paths (s @ [f]) (ts @ [Texture_init p [length s]]) =
           Inr ((s @ [f]) @ fs, (ts @ [Texture_init p [length s]]) @ new)"
    and len: "length fs = length paths" "length new = length paths"
    and nth: "\<forall>i < length paths. new ! i = Texture_init (paths ! i) [length (s @ [f]) + i]"
    and dims: "\<forall>f \<in> set fs. 0 \<le> p_width f \<and> 0 \<le> p_height f" by blast
  have "load_textures decode (p # paths) s ts =
      Inr (s @ (f # fs), ts @ (Texture_init p [length s] # new))"
    using f ld by simp
  moreover have "\<forall>i < length (p # paths).
      (Texture_init p [length s] # new) ! i = Texture_init ((p # paths) ! i) [length s + i]"
  proof (intro allI impI)
    fix i assume "i < length (p # paths)"
    then show "(Texture_init p [length s] # new) ! i = Texture_init ((p # paths) ! i) [length s + i]"
      using nth by (cases i) simp_all
  qed
  moreover have "\<forall>g \<in> set (f # fs). 0 \<le> p_width g \<and> 0 \<le> p_height g" using nn dims by simp
  ultimately show ?case using len
    by (intro exI[of _ "f # fs"] exI[of _ "Texture_init p [length s] # new"]) simp
qed

lemma sort_textures_ok:
  assumes "\<forall>t \<in> set textures. t_frames t \<noteq> []"
  shows "\<exists>sorted. sort_textures s textures = Inr sorted \<and> set sorted = set textures \<and>
           length sorted = length textures"
proof -
  from assms have "[] \<notin> set (map t_frames textures)" by auto
  then show ?thesis by (simp add: sort_textures_def)
qed

lemma initial_size_ge_1:
  assumes "initial_size s textures = Inr sz"
  shows "1 \<le> sz"
proof -
  obtain h w p where m: "measure_frames s textures = (h, w, p)" by (cases "measure_frames s textures")
  from assms obtain c where sz: "sz = max h (max w (push_bit (bit_length (c - 1)) 1))"
    by (auto simp: initial_size_def m split: sum.splits)
  have "(1::int) \<le> 2 ^ bit_length (c - 1)" by simp
  then have "(1::int) \<le> push_bit (bit_length (c - 1)) 1" by (simp add: push_bit_eq_mult)
  then show ?thesis unfolding sz by linarith
qed

lemma initial_size_error:
  assumes "initial_size s textures = Inl e"
  shows "e = OverflowError"
proof -
  obtain h w p where m: "measure_frames s textures = (h, w, p)" by (cases "measure_frames s textures")
  from assms have "ceil_sqrt p = Inl e" by (auto simp: initial_size_def m split: sum.splits)
  then have "int_to_double (nat p) = Inl e" by (auto simp: ceil_sqrt_def split: sum.splits)
  then show ?thesis by (auto simp: int_to_double_def Let_def split: if_splits)
qed

lemma same_dims_nonneg:
  assumes "same_dims s s'" and "\<forall>f \<in> set s. 0 \<le> p_width f \<and> 0 \<le> p_height f"
  shows "\<forall>f \<in> set s'. 0 \<le> p_width f \<and> 0 \<le> p_height f"
proof
  fix f assume "f \<in> set s'"
  then obtain i where i: "i < length s'" "f = s' ! i" by (auto simp: in_set_conv_nth)
  with assms(1) have "i < length s" "p_width f = p_width (s ! i)" "p_height f = p_height (s ! i)"
    by (simp_all add: same_dims_def)
  with assms(2) show "0 \<le> p_width f \<and> 0 \<le> p_height f" by (metis nth_mem)
qed

lemma build_ok:
  assumes "\<forall>p \<in> snd ` set texture_dict. decode p \<noteq> None"
  shows "build decode texture_dict = Some (Inl OverflowError) \<or>
    (\<exists>atlas s sz. build decode texture_dict = Some (Inr (atlas, s)) \<and>
     1 \<le> sz \<and> r_width (a_region atlas) = sz \<and> r_height (a_region atlas) = sz \<and>
     packed_from sz sz (a_region atlas) s \<and> length s = length texture_dict \<and>
     set (a_textures atlas) =
       {Texture_init (snd (texture_dict ! i)) [i] | i. i < length texture_dict} \<and>
     set (get_all_packables (a_region atlas)) = {..<length texture_dict})"
proof -
  let ?paths = "map snd texture_dict"
  let ?n = "length texture_dict"
  from assms have "\<forall>p \<in> set ?paths. decode p \<noteq> None" by simp
  from load_textures_ok[OF this, of "[]" "[]"] obtain s0 ts0 where
    ld: "load_textures decode ?paths [] [] = Inr (s0, ts0)"
    and len: "length s0 = ?n" "length ts0 = ?n"
    and nth: "\<forall>i < ?n. ts0 ! i = Texture_init (snd (texture_dict ! i)) [i]"
    and dims: "\<forall>f \<in> set s0. 0 \<le> p_width f \<and> 0 \<le> p_height f" by auto
  have set0: "set ts0 = {Texture_init (snd (texture_dict ! i)) [i] | i. i < ?n}"
  proof -
    have "set ts0 = {ts0 ! i | i. i < length ts0}" by (rule set_conv_nth)
    also have "\<dots> = {Texture_init (snd (texture_dict ! i)) [i] | i. i < ?n}"
    proof (intro set_eqI iffI)
      fix t assume "t \<in> {ts0 ! i | i. i < length ts0}"
      then obtain i where "i < length ts0" "t = ts0 ! i" by blast
      with len nth have "i < ?n \<and> t = Texture_init (snd (texture_dict ! i)) [i]" by simp
      then show "t \<in> {Texture_init (snd (texture_dict ! i)) [i] | i. i < ?n}" by blast
    next
      fix t assume "t \<in> {Texture_init (snd (texture_dict ! i)) [i] | i. i < ?n}"
      then obtain i where "i < ?n" "t = Texture_init (snd (texture_dict ! i)) [i]" by blast
      with len nth have "i < length ts0 \<and> t = ts0 ! i" by simp
      then show "t \<in> {ts0 ! i | i. i < length ts0}" by blast
    qed
    finally show ?thesis .
  qed
  then have ne: "\<forall>t \<in> set ts0. t_frames t \<noteq> []" by (auto simp: Texture_init_def)
  from sort_textures_ok[OF ne, of s0] obtain ts where
    st: "sort_textures s0 ts0 = Inr ts" and sets: "set ts = set ts0" by blast
  have fr: "frames_of ts = {..<?n}"
    unfolding frames_of_def sets set0 by (auto simp: Texture_init_def)
  have af: "set (all_frames ts) = {..<?n}"
    using fr by (simp add: all_frames_def frames_of_def)
  have wn: "\<forall>f \<in> set (all_frames ts). 0 \<le> p_width (s0 ! f)"
    using af dims len by (simp add: nth_mem)
  show ?thesis
  proof (cases "initial_size s0 ts")
    case (Inl e)
    from initial_size_error[OF Inl] have "e = OverflowError" .
    with Inl have "build decode texture_dict = Some (Inl OverflowError)"
      unfolding build_def ld using st by simp
    then show ?thesis by (rule disjI1)
  next
    case (Inr sz0)
    have sz0: "1 \<le> sz0" using initial_size_ge_1[OF Inr] .
    from pack_loop_terminates[OF sz0 wn] obtain k atlas s1 s' where
      lp: "pack_loop ts sz0 s0 = Some (Inr (atlas, s'))" and sd: "same_dims s0 s1"
      and run: "pack_textures (TextureAtlas_init (sz0 * 2 ^ k) (sz0 * 2 ^ k)) ts s1 =
                  (None, atlas, s')" by blast
    define sz where "sz = sz0 * 2 ^ k"
    have "(1::int) \<le> 2 ^ k" by simp
    with sz0 have "1 * 1 \<le> sz0 * 2 ^ k" by (intro mult_mono) simp_all
    then have sz: "1 \<le> sz" unfolding sz_def by simp
    have dims1: "\<forall>f \<in> set s1. 0 \<le> p_width f \<and> 0 \<le> p_height f"
      using same_dims_nonneg[OF sd dims] .
    have len1: "length s1 = ?n" using sd len by (simp add: same_dims_def)
    have fr1: "frames_of ts \<subseteq> {..<length s1}" using fr len1 by simp
    from pack_textures_packed[OF fresh_atlas_packed[OF dims1] fr1 run[folded sz_def]]
    have pf: "packed_from sz sz (a_region atlas) s'" and len': "length s' = length s1"
      and tex: "a_textures atlas = a_textures (TextureAtlas_init sz sz) @ ts"
      and gap: "set (get_all_packables (a_region atlas)) =
         frames_of ts \<union> set (get_all_packables (a_region (TextureAtlas_init sz sz)))"
      by simp_all
    from packed_from_inv[OF pf] have root:
      "r_width (a_region atlas) = sz" "r_height (a_region atlas) = sz"
      by simp_all
    have b: "build decode texture_dict = Some (Inr (atlas, s'))"
      unfolding build_def ld using st lp Inr by simp
    have "a_textures atlas = ts" using tex by (simp add: TextureAtlas_init_def)
    then have t: "set (a_textures atlas) = {Texture_init (snd (texture_dict ! i)) [i] | i. i < ?n}"
      using sets set0 by simp
    have "get_all_packables (a_region (TextureAtlas_init sz sz)) = []"
      by (simp add: TextureAtlas_init_def PackRegion_init_def)
    with gap fr have g: "set (get_all_packables (a_region atlas)) = {..<?n}" by simp
    have l: "length s' = ?n" using len' len1 by simp
    have "\<exists>atlas s sz. build decode texture_dict = Some (Inr (atlas, s)) \<and>
       1 \<le> sz \<and> r_width (a_region atlas) = sz \<and> r_height (a_region atlas) = sz \<and>
       packed_from sz sz (a_region atlas) s \<and> length s = length texture_dict \<and>
       set (a_textures atlas) =
         {Texture_init (snd (texture_dict ! i)) [i] | i. i < length texture_dict} \<and>
       set (get_all_packables (a_region atlas)) = {..<length texture_dict}"
      using b sz root pf l t g by (intro exI[of _ atlas] exI[of _ s'] exI[of _ sz] conjI)
    then show ?thesis by (rule disjI2)
  qed
qed

section \<open>Examples\<close>

lemma ex_load_D:
  "load_textures example_decoder [''D'', ''D''] [] [] =
     Inr ([example_frame ''D'' 2 2 0 0, example_frame ''D'' 2 2 0 0],
          [Texture_init ''D'' [0], Texture_init ''D'' [1]])"
  by (simp add: Frame_init_def example_decoder_def example_frame_def plain_image_def
      Packable_init_def Packable.defs Frame.defs)

lemma ex_sort_D:
  "sort_textures [example_frame ''D'' 2 2 0 0, example_frame ''D'' 2 2 0 0]
     [Texture_init ''D'' [0], Texture_init ''D'' [1]] =
   Inr [Texture_init ''D'' [0], Texture_init ''D'' [1]]"
  by (simp add: sort_textures_def Texture_init_def perimeter_def example_frame_def)

lemma ex_size_D:
  "initial_size [example_frame ''D'' 2 2 0 0, example_frame ''D'' 2 2 0 0]
     [Texture_init ''D'' [0], Texture_init ''D'' [1]] = Inr 4"
proof -
  have bl: "bit_length 2 = 2" by (simp add: bit_length_def bit_length_nat.simps)
  show ?thesis
    by (simp add: initial_size_def measure_frames_def Texture_init_def example_frame_def
        ceil_sqrt_8 bl)
qed

lemma ex_pack_D:
  "pack_textures (TextureAtlas_init 4 4) [Texture_init ''D'' [0], Texture_init ''D'' [1]]
     [example_frame ''D'' 2 2 0 0, example_frame ''D'' 2 2 0 0] =
   (None,
    \<lparr>a_region = Occupied 0 0 4 4 0 (Occupied 0 2 2 2 1 (Empty 0 4 2 0) (Empty 2 2 0 2))
                   (Empty 2 0 2 4),
     a_textures = [Texture_init ''D'' [0], Texture_init ''D'' [1]]\<rparr>,
    [example_frame ''D'' 2 2 0 0, example_frame ''D'' 2 2 0 2])"
  by (simp add: TextureAtlas_pack_def TextureAtlas_init_def PackRegion_init_def
      Texture_init_def example_frame_def pack_Empty pack_Occupied)

lemma ex_build_D:
  "build example_decoder [(1::nat, ''D''), (2, ''D'')] = Some (Inr (atlas_D, store_D))"
proof -
  have m: "map snd [(1::nat, ''D''), (2, ''D'')] = [''D'', ''D'']" by simp
  show ?thesis
    unfolding build_def m ex_load_D sum.case prod.case ex_sort_D ex_size_D atlas_D_def store_D_def
    by (subst pack_loop.simps, unfold ex_pack_D) simp
qed

lemma ex_to_dict_D: "to_dict atlas_D store_D = Inr [''D'' \<mapsto> (0, 1 / 2, 1 / 2, 1)]"
  by (simp add: atlas_D_def store_D_def to_dict_def bounds_entry_def truediv_def
      Texture_init_def example_frame_def)

section \<open>The result of create_atlas\<close>

lemma build_Inr_decodes:
  assumes "build decode texture_dict = Some (Inr r)"
  shows "\<forall>p \<in> snd ` set texture_dict. decode p \<noteq> None"
proof -
  from assms obtain r0 where "load_textures decode (map snd texture_dict) [] [] = Inr r0"
    by (auto simp: build_def split: sum.splits)
  from load_textures_decodes[OF this] show ?thesis by simp
qed

lemma remap_other:
  "remap texture_bounds texture_dict d = Inr bounds \<Longrightarrow> k \<notin> fst ` set texture_dict \<Longrightarrow>
   bounds k = d k"
proof (induction texture_dict arbitrary: d)
  case Nil
  then show ?case by simp
next
  case (Cons kp rest)
  obtain k' p where kp: "kp = (k', p)" by (cases kp)
  with Cons.prems(1) obtain b where b: "texture_bounds p = Some b"
    and rest: "remap texture_bounds rest (d(k' \<mapsto> b)) = Inr bounds"
    by (auto split: option.splits)
  from Cons.prems(2) kp have "k \<notin> fst ` set rest" "k \<noteq> k'" by auto
  with Cons.IH[OF rest] show ?case by simp
qed

lemma remap_entry:
  "remap texture_bounds texture_dict d = Inr bounds \<Longrightarrow> distinct (map fst texture_dict) \<Longrightarrow>
   (k, p) \<in> set texture_dict \<Longrightarrow> bounds k = texture_bounds p \<and> texture_bounds p \<noteq> None"
proof (induction texture_dict arbitrary: d)
  case Nil
  then show ?case by simp
next
  case (Cons kp rest)
  obtain k' p' where kp: "kp = (k', p')" by (cases kp)
  with Cons.prems(1) obtain b where b: "texture_bounds p' = Some b"
    and rest: "remap texture_bounds rest (d(k' \<mapsto> b)) = Inr bounds"
    by (auto split: option.splits)
  from Cons.prems(2) kp have dist: "distinct (map fst rest)" and fresh: "k' \<notin> fst ` set rest"
    by simp_all
  show ?case
  proof (cases "(k, p) = (k', p')")
    case True
    from remap_other[OF rest fresh] have "bounds k' = Some b" by simp
    with True b show ?thesis by simp
  next
    case False
    with Cons.prems(3) kp have "(k, p) \<in> set rest" by auto
    from Cons.IH[OF rest dist this] show ?thesis .
  qed
qed

text \<open>
  Claim C6, as amended. Two keys with the same path give two textures of that name, each
  with a frame of its own, and the two frames are packed at places that do not overlap.
  The table of \<^const>\<open>to_dict\<close> is keyed by the texture name, which is the path, so both
  keys get one and the same UV entry.
\<close>

theorem duplicate_path_shares_entry:
  assumes "build decode texture_dict = Some (Inr (atlas, s))"
    and "create_atlas decode texture_dict = Some (Inr (buf, bounds, w, h))"
    and "distinct (map fst texture_dict)"
    and "i < length texture_dict" and "j < length texture_dict" and "i \<noteq> j"
    and "snd (texture_dict ! i) = snd (texture_dict ! j)"
  shows "Texture_init (snd (texture_dict ! i)) [i] \<in> set (a_textures atlas) \<and>
         Texture_init (snd (texture_dict ! j)) [j] \<in> set (a_textures atlas) \<and>
         box (s ! i) \<inter> box (s ! j) = {} \<and>
         bounds (fst (texture_dict ! i)) = bounds (fst (texture_dict ! j)) \<and>
         bounds (fst (texture_dict ! i)) \<noteq> None"
proof -
  from build_ok[OF build_Inr_decodes[OF assms(1)]] assms(1) obtain sz where
    pf: "packed_from sz sz (a_region atlas) s"
    and tex: "set (a_textures atlas) =
       {Texture_init (snd (texture_dict ! k)) [k] | k. k < length texture_dict}"
    and gap: "set (get_all_packables (a_region atlas)) = {..<length texture_dict}"
    by auto
  from tex assms(4,5) have t: "Texture_init (snd (texture_dict ! i)) [i] \<in> set (a_textures atlas)"
    "Texture_init (snd (texture_dict ! j)) [j] \<in> set (a_textures atlas)" by blast+
  from gap assms(4,5) have "i \<in> set (get_all_packables (a_region atlas))"
    "j \<in> set (get_all_packables (a_region atlas))" by simp_all
  from packed_disjoint[OF pf this assms(6)] have disj: "box (s ! i) \<inter> box (s ! j) = {}" .
  from assms(2) obtain d where d: "to_dict atlas s = Inr d"
    and r: "remap d texture_dict Map.empty = Inr bounds"
    by (auto simp: create_atlas_def assms(1) split: sum.splits)
  have "(fst (texture_dict ! i), snd (texture_dict ! i)) \<in> set texture_dict"
    "(fst (texture_dict ! j), snd (texture_dict ! j)) \<in> set texture_dict"
    using assms(4,5) by simp_all
  from remap_entry[OF r assms(3) this(1)] remap_entry[OF r assms(3) this(2)] assms(7)
  have "bounds (fst (texture_dict ! i)) = bounds (fst (texture_dict ! j)) \<and>
        bounds (fst (texture_dict ! i)) \<noteq> None" by simp
  with t disj show ?thesis by blast
qed

lemma ex_create_D:
  "create_atlas example_decoder [(1::nat, ''D''), (2, ''D'')] =
   Some (Inr
    (ravel (generate atlas_D store_D),
     [1 \<mapsto> (0, 1 / 2, 1 / 2, 1), 2 \<mapsto> (0, 1 / 2, 1 / 2, 1)], 4, 4))"
  unfolding create_atlas_def ex_build_D option.case sum.case prod.case ex_to_dict_D
  by (simp add: atlas_D_def)

theorem duplicate_path_shares_entry_witness:
  "box (example_frame ''D'' 2 2 0 0) \<inter> box (example_frame ''D'' 2 2 0 2) = {} \<and>
   [1 \<mapsto> (0, 1 / 2, 1 / 2, 1), 2 \<mapsto> (0, 1 / 2, 1 / 2, 1 :: rat)] (1::nat) =
   [1 \<mapsto> (0, 1 / 2, 1 / 2, 1), 2 \<mapsto> (0, 1 / 2, 1 / 2, 1 :: rat)] 2"
proof -
  let ?td = "[(1::nat, ''D''), (2, ''D'')]"
  have a: "distinct (map fst ?td)" by simp
  have b: "0 < length ?td" "1 < length ?td" "(0::nat) \<noteq> 1" by simp_all
  have c: "snd (?td ! 0) = snd (?td ! 1)" by simp
  from duplicate_path_shares_entry[OF ex_build_D ex_create_D a b c] show ?thesis
    by (simp add: atlas_D_def store_D_def)
qed

text \<open>
  The statement of C6 in the specification fails here: the two keys of the one path get
  the same UV entry, not two distinct ones.
\<close>

theorem duplicate_path_counterexample:
  "uv_of (create_atlas example_decoder [(1::nat, ''D''), (2, ''D'')]) 1 =
     Some (0, 1 / 2, 1 / 2, 1) \<and>
   uv_of (create_atlas example_decoder [(1::nat, ''D''), (2, ''D'')]) 2 =
     Some (0, 1 / 2, 1 / 2, 1)"
  unfolding ex_create_D uv_of_def by simp

text \<open>
  The statement of C4 in the specification fails here. The two keys of the one path give
  two packed textures of the name \<open>D\<close>. The first has its frame at \<open>(0, 0)\<close> with size
  \<open>(2, 2)\<close> in the atlas of 4 by 4, so that its tuple is \<open>(0, 0, 1 / 2, 1 / 2)\<close>; the entry
  of the table under its name is \<open>(0, 1 / 2, 1 / 2, 1)\<close>, the tuple of the second.
\<close>

theorem to_dict_shared_name_counterexample:
  "build example_decoder [(1::nat, ''D''), (2, ''D'')] = Some (Inr (atlas_D, store_D)) \<and>
   to_dict atlas_D store_D = Inr [''D'' \<mapsto> (0, 1 / 2, 1 / 2, 1)] \<and>
   a_textures atlas_D ! 0 = Texture_init ''D'' [0] \<and>
   t_name (a_textures atlas_D ! 0) = ''D'' \<and>
   t_frames (a_textures atlas_D ! 0) = [0] \<and>
   (rat_of_int (p_x (store_D ! 0)) / rat_of_int (r_width (a_region atlas_D)),
    rat_of_int (p_y (store_D ! 0)) / rat_of_int (r_height (a_region atlas_D)),
    rat_of_int (p_x (store_D ! 0) + p_width (store_D ! 0)) / rat_of_int (r_width (a_region atlas_D)),
    rat_of_int (p_y (store_D ! 0) + min (p_height (store_D ! 0)) (p_width (store_D ! 0))) /
      rat_of_int (r_height (a_region atlas_D))) = (0, 0, 1 / 2, 1 / 2) \<and>
   [''D'' \<mapsto> (0, 1 / 2, 1 / 2, 1 :: rat)] ''D'' \<noteq> Some (0, 0, 1 / 2, 1 / 2)"
proof -
  have t: "a_textures atlas_D ! 0 = Texture_init ''D'' [0]" by (simp add: atlas_D_def)
  have n: "t_name (a_textures atlas_D ! 0) = ''D''" "t_frames (a_textures atlas_D ! 0) = [0]"
    unfolding t by (simp_all add: Texture_init_def)
  have own: "(rat_of_int (p_x (store_D ! 0)) / rat_of_int (r_width (a_region atlas_D)),
    rat_of_int (p_y (store_D ! 0)) / rat_of_int (r_height (a_region atlas_D)),
    rat_of_int (p_x (store_D ! 0) + p_width (store_D ! 0)) / rat_of_int (r_width (a_region atlas_D)),
    rat_of_int (p_y (store_D ! 0) + min (p_height (store_D ! 0)) (p_width (store_D ! 0))) /
      rat_of_int (r_height (a_region atlas_D))) = (0, 0, 1 / 2, 1 / 2)"
    by (simp add: atlas_D_def store_D_def example_frame_def)
  have ne: "[''D'' \<mapsto> (0, 1 / 2, 1 / 2, 1 :: rat)] ''D'' \<noteq> Some (0, 0, 1 / 2, 1 / 2)" by simp
  from ex_build_D ex_to_dict_D t n own ne show ?thesis by (intro conjI)
qed




end
